theory Spec2Isabelle
  imports Main "HOL-Library.Sublist"
begin

section \<open>Strings and errors\<close>

text \<open>
  A JavaScript string is a sequence of code units; the model uses \<open>string\<close>, whose
  characters are the code units \<open>0..255\<close>. Every \<open>new Error(...)\<close> of the sources is a
  constructor of \<open>error\<close> carrying the values its message interpolates; an error that
  wraps the message of another one carries that error.
\<close>

datatype error =
    InvalidUrl string                 \<comment> \<open>Validator.validateUrl: "Invalid URL provided: url"\<close>
  | HtmlEmptyOrInvalid                \<comment> \<open>Validator.validateHtml: "HTML content is empty or invalid"\<close>
  | HtmlEmpty                         \<comment> \<open>Validator.validateHtml: "HTML content is empty"\<close>
  | NoCharacters                      \<comment> \<open>Validator.validateCharacters: "No characters were extracted ..."\<close>
  | AllStrategiesFailed "error option" \<comment> \<open>HtmlParser.parse: "All extraction strategies failed. Last error: ..."\<close>
  | FetchFailed nat error             \<comment> \<open>HttpClient.fetch: "Failed to fetch URL after n attempts: ..."\<close>
  | HttpStatus nat string             \<comment> \<open>HttpClient._makeRequest: "HTTP code: message"\<close>
  | RequestTimeout                    \<comment> \<open>HttpClient._makeRequest: "Request timeout"\<close>
  | NetworkError string               \<comment> \<open>HttpClient._makeRequest: the request's own error event\<close>
  | XPathFailed error                 \<comment> \<open>XPathStrategy.extract: "XPath extraction failed: ..."\<close>
  | JSDOMFailed error                 \<comment> \<open>JSDOMStrategy.extract: "JSDOM extraction failed: ..."\<close>
  | RegexFailed error                 \<comment> \<open>RegexStrategy.extract: "Regex extraction failed: ..."\<close>
  | ParserError string                \<comment> \<open>an exception of a DOM parser\<close>
  | FetchHtmlFailed error             \<comment> \<open>UrlExtractor._fetchHtml: "Failed to fetch HTML: ..."\<close>
  | ExtractCharactersFailed error     \<comment> \<open>UrlExtractor._extractCharacters: "Failed to extract characters: ..."\<close>

text \<open>
  \<open>String.prototype.trim\<close> removes white space and line terminators from both ends. Of
  the code units \<open>0..255\<close> these are TAB, LF, VT, FF, CR, SP and NBSP.
\<close>

definition is_white :: "char \<Rightarrow> bool" where
  "is_white c \<longleftrightarrow> c \<in> set [CHR 0x09, CHR 0x0A, CHR 0x0B, CHR 0x0C, CHR 0x0D, CHR 0x20, CHR 0xA0]"

definition trim :: "string \<Rightarrow> string" where
  "trim s = rev (dropWhile is_white (rev (dropWhile is_white s)))"

section \<open>Validator\<close>

text \<open>
  \<open>validateUrl\<close> succeeds when \<open>new URL(url)\<close> does. The URL parser belongs to the
  platform, so it is the parameter \<open>parses\<close>.
\<close>

definition validateUrl :: "(string \<Rightarrow> bool) \<Rightarrow> string \<Rightarrow> error + bool" where
  "validateUrl parses url = (if parses url then Inr True else Inl (InvalidUrl url))"

text \<open>
  \<open>validateHtml\<close>: \<open>!html\<close> holds of the empty string; the \<open>typeof\<close> test holds of
  every string.
\<close>

definition validateHtml :: "string \<Rightarrow> error + bool" where
  "validateHtml html =
     (if html = [] then Inl HtmlEmptyOrInvalid
      else if length (trim html) = 0 then Inl HtmlEmpty
      else Inr True)"

definition validateCharacters :: "string list \<Rightarrow> error + bool" where
  "validateCharacters characters =
     (if length characters = 0 then Inl NoCharacters else Inr True)"

section \<open>HtmlParser\<close>

text \<open>
  An extraction strategy is its \<open>extract\<close> method: from the document to the extracted
  characters or to the error it throws. \<open>parse\<close> returns its outcome together with the
  indices of the strategies whose \<open>extract\<close> it invoked, in the order of the calls.
\<close>

type_synonym strategy = "string \<Rightarrow> error + string list"

fun parse_loop ::
  "strategy list \<Rightarrow> string \<Rightarrow> nat \<Rightarrow> error option \<Rightarrow> nat list \<Rightarrow> (error + string list) \<times> nat list"
where
  "parse_loop [] html i lastError calls = (Inl (AllStrategiesFailed lastError), calls)"
| "parse_loop (strategy # rest) html i lastError calls =
     (case strategy html of
        Inl e \<Rightarrow> parse_loop rest html (Suc i) (Some e) (calls @ [i])
      | Inr characters \<Rightarrow>
          if length characters > 0 then
            (case validateCharacters characters of
               Inl e \<Rightarrow> parse_loop rest html (Suc i) (Some e) (calls @ [i])
             | Inr _ \<Rightarrow> (Inr characters, calls @ [i]))
          else parse_loop rest html (Suc i) lastError (calls @ [i]))"

definition parse :: "strategy list \<Rightarrow> string \<Rightarrow> (error + string list) \<times> nat list" where
  "parse strategies html =
     (case validateHtml html of
        Inl e \<Rightarrow> (Inl e, [])
      | Inr _ \<Rightarrow> parse_loop strategies html 0 None [])"

text \<open>A strategy wins on a document when it returns a non-empty sequence.\<close>

definition wins :: "strategy \<Rightarrow> string \<Rightarrow> bool" where
  "wins strategy html = (case strategy html of Inl _ \<Rightarrow> False | Inr characters \<Rightarrow> characters \<noteq> [])"

text \<open>Stub strategies, for evaluating the orchestrator on concrete strategy lists.\<close>

definition stub_throws :: strategy where
  "stub_throws html = Inl (ParserError ''boom'')"

definition stub_empty :: strategy where
  "stub_empty html = Inr []"

definition stub_ab :: strategy where
  "stub_ab html = Inr [''a'', ''b'']"

definition stub_z :: strategy where
  "stub_z html = Inr [''z'']"

section \<open>Regular expressions\<close>

text \<open>
  The two regular expressions of the sources are sequences of literals and of starred
  character classes: \<open>[^c]*\<close> (greedy), \<open>[\s\S]*?\<close> (lazy) and one capturing
  group \<open>([^c]*)\<close>. \<open>rmatch\<close> is the backtracking matcher of ECMAScript on such a
  sequence, anchored at the start of its input: a greedy star first tries one more
  character and then the rest of the pattern, a lazy star first tries the rest of the
  pattern. It returns the text of the group (empty when the pattern has none) and the
  input left after the match.

  With the flag \<open>i\<close> two characters match when their canonical forms are equal. The
  canonical form is the upper-case form, except that a code unit from 128 on never
  takes a form below 128; the patterns hold ASCII characters only, so only the folding
  of the ASCII letters decides a comparison.
\<close>

datatype cls = AnyChar | NotChar char

datatype item = Lit string | Star cls | LazyStar cls | Group cls

definition canonicalize :: "char \<Rightarrow> char" where
  "canonicalize c =
     (case map_of (zip ''abcdefghijklmnopqrstuvwxyz'' ''ABCDEFGHIJKLMNOPQRSTUVWXYZ'') c of
        Some u \<Rightarrow> u
      | None \<Rightarrow> c)"

text \<open>The same function on the bits of a character, for evaluation.\<close>

lemma canonicalize_bits [code]:
  "canonicalize (Char b0 b1 b2 b3 b4 b5 b6 b7) =
     (if \<not> b7 \<and> b6 \<and> b5 \<and> (b0 \<or> b1 \<or> b2 \<or> b3 \<or> b4) \<and> \<not> (b4 \<and> b3 \<and> (b2 \<or> b1 \<and> b0))
      then Char b0 b1 b2 b3 b4 False b6 b7
      else Char b0 b1 b2 b3 b4 b5 b6 b7)"
  by (cases b0; cases b1; cases b2; cases b3; cases b4; cases b5; cases b6; cases b7;
      simp add: canonicalize_def)

definition char_eq :: "bool \<Rightarrow> char \<Rightarrow> char \<Rightarrow> bool" where
  "char_eq ignoreCase a c = (if ignoreCase then canonicalize a = canonicalize c else a = c)"

fun in_cls :: "bool \<Rightarrow> cls \<Rightarrow> char \<Rightarrow> bool" where
  "in_cls ignoreCase AnyChar c = True"
| "in_cls ignoreCase (NotChar x) c = (\<not> char_eq ignoreCase x c)"

fun lit_prefix :: "bool \<Rightarrow> string \<Rightarrow> string \<Rightarrow> bool" where
  "lit_prefix ignoreCase [] s = True"
| "lit_prefix ignoreCase (a # l) [] = False"
| "lit_prefix ignoreCase (a # l) (c # s) = (char_eq ignoreCase a c \<and> lit_prefix ignoreCase l s)"

fun rmatch :: "bool \<Rightarrow> item list \<Rightarrow> string \<Rightarrow> (string \<times> string) option" where
  "rmatch ic [] s = Some ([], s)"
| "rmatch ic (Lit l # r) s =
     (if lit_prefix ic l s then rmatch ic r (drop (length l) s) else None)"
| "rmatch ic (Star k # r) [] = rmatch ic r []"
| "rmatch ic (Star k # r) (c # s) =
     (if in_cls ic k c then
        (case rmatch ic (Star k # r) s of
           Some m \<Rightarrow> Some m
         | None \<Rightarrow> rmatch ic r (c # s))
      else rmatch ic r (c # s))"
| "rmatch ic (LazyStar k # r) [] = rmatch ic r []"
| "rmatch ic (LazyStar k # r) (c # s) =
     (case rmatch ic r (c # s) of
        Some m \<Rightarrow> Some m
      | None \<Rightarrow> if in_cls ic k c then rmatch ic (LazyStar k # r) s else None)"
| "rmatch ic (Group k # r) [] = rmatch ic r []"
| "rmatch ic (Group k # r) (c # s) =
     (if in_cls ic k c then
        (case rmatch ic (Group k # r) s of
           Some (captured, rest) \<Rightarrow> Some (c # captured, rest)
         | None \<Rightarrow> rmatch ic r (c # s))
      else rmatch ic r (c # s))"

text \<open>
  \<open>RegExp.prototype.exec\<close> tries the pattern at the current index and then at every
  later one; \<open>exec\<close> is given the input from the current index on.
\<close>

fun exec :: "bool \<Rightarrow> item list \<Rightarrow> string \<Rightarrow> (string \<times> string) option" where
  "exec ic p [] = rmatch ic p []"
| "exec ic p (c # s) =
     (case rmatch ic p (c # s) of
        Some m \<Rightarrow> Some m
      | None \<Rightarrow> exec ic p s)"

text \<open>A match consumes at least the characters of the pattern's literals.\<close>

fun lit_len :: "item list \<Rightarrow> nat" where
  "lit_len [] = 0"
| "lit_len (Lit l # r) = length l + lit_len r"
| "lit_len (i # r) = lit_len r"

lemma lit_prefix_length: "lit_prefix ic l s \<Longrightarrow> length l \<le> length s"
  by (induction ic l s rule: lit_prefix.induct) auto

lemma rmatch_consumes:
  "rmatch ic p s = Some (captured, rest) \<Longrightarrow> length rest + lit_len p \<le> length s"
proof (induction ic p s arbitrary: captured rest rule: rmatch.induct)
  case (2 ic l r s)
  then have pre: "lit_prefix ic l s" and m: "rmatch ic r (drop (length l) s) = Some (captured, rest)"
    by (auto split: if_splits)
  from "2.IH" [OF pre m] lit_prefix_length [OF pre] show ?case by simp
qed (fastforce split: if_splits option.splits)+

lemma exec_consumes:
  "exec ic p s = Some (captured, rest) \<Longrightarrow> length rest + lit_len p \<le> length s"
proof (induction s)
  case Nil
  then show ?case using rmatch_consumes [of ic p "[]"] by simp
next
  case (Cons c s)
  then show ?case using rmatch_consumes [of ic p "c # s"]
    by (fastforce split: option.splits)
qed

text \<open>
  What a match is, apart from the order in which the matcher looks for it:
  \<open>conforms ic p x captured\<close> holds when the text \<open>x\<close> is made of one piece for each
  item of \<open>p\<close>, a literal's piece equal to it (up to canonical forms under \<open>ic\<close>), and a
  star's piece of characters of its class; \<open>captured\<close> is the piece of the group.
\<close>

definition same_text :: "bool \<Rightarrow> string \<Rightarrow> string \<Rightarrow> bool" where
  "same_text ic l w = list_all2 (char_eq ic) l w"

inductive conforms :: "bool \<Rightarrow> item list \<Rightarrow> string \<Rightarrow> string \<Rightarrow> bool" where
  empty: "conforms ic [] [] []"
| lit: "same_text ic l w \<Longrightarrow> conforms ic r x captured \<Longrightarrow> conforms ic (Lit l # r) (w @ x) captured"
| star: "\<forall>c \<in> set w. in_cls ic k c \<Longrightarrow> conforms ic r x captured \<Longrightarrow>
         conforms ic (Star k # r) (w @ x) captured"
| lazy: "\<forall>c \<in> set w. in_cls ic k c \<Longrightarrow> conforms ic r x captured \<Longrightarrow>
         conforms ic (LazyStar k # r) (w @ x) captured"
| group: "\<forall>c \<in> set w. in_cls ic k c \<Longrightarrow> conforms ic r x captured \<Longrightarrow>
          conforms ic (Group k # r) (w @ x) (w @ captured)"

inductive_simps conforms_Nil: "conforms ic [] x captured"
inductive_simps conforms_Lit: "conforms ic (Lit l # r) x captured"
inductive_simps conforms_Star: "conforms ic (Star k # r) x captured"
inductive_simps conforms_LazyStar: "conforms ic (LazyStar k # r) x captured"
inductive_simps conforms_Group: "conforms ic (Group k # r) x captured"

inductive_cases conforms_NilE: "conforms ic [] x captured"
inductive_cases conforms_LitE: "conforms ic (Lit l # r) x captured"
inductive_cases conforms_StarE: "conforms ic (Star k # r) x captured"
inductive_cases conforms_LazyStarE: "conforms ic (LazyStar k # r) x captured"
inductive_cases conforms_GroupE: "conforms ic (Group k # r) x captured"

text \<open>Whether an item captures.\<close>

fun is_group :: "item \<Rightarrow> bool" where
  "is_group (Group k) = True"
| "is_group i = False"

text \<open>
  A character without case: neither an ASCII letter nor the canonical form of one, so
  that under the flag \<open>i\<close> it matches itself only.
\<close>

definition caseless :: "char \<Rightarrow> bool" where
  "caseless q \<longleftrightarrow> q \<notin> set ''abcdefghijklmnopqrstuvwxyz'' \<and> q \<notin> set ''ABCDEFGHIJKLMNOPQRSTUVWXYZ''"

section \<open>HttpClient\<close>

text \<open>
  The constants of \<open>config/constants\<close> and the client the constructor builds from them.
\<close>

definition HTTP_TIMEOUT :: nat where "HTTP_TIMEOUT = 10000"
definition HTTP_MAX_RETRIES :: nat where "HTTP_MAX_RETRIES = 3"
definition HTTP_RETRY_DELAY :: nat where "HTTP_RETRY_DELAY = 1000"

record HttpClient =
  timeout :: nat
  maxRetries :: nat
  retryDelay :: nat

definition new_HttpClient :: HttpClient where
  "new_HttpClient =
     \<lparr>timeout = HTTP_TIMEOUT, maxRetries = HTTP_MAX_RETRIES, retryDelay = HTTP_RETRY_DELAY\<rparr>"

text \<open>
  The network is outside the program: \<open>net n url\<close> is how the \<open>n\<close>-th request of a run
  (counted from 0) ends when it goes to \<open>url\<close>: the promise of \<open>_makeRequest\<close> resolves
  with the body or rejects (a status other than 200, a timeout, an error of the request).
  A run records its requests and its delays, in order, in a trace.
\<close>

datatype response = Resolve string | Reject error

type_synonym network = "nat \<Rightarrow> string \<Rightarrow> response"

datatype event = Request string | Delay nat

fun is_request :: "event \<Rightarrow> bool" where
  "is_request (Request url) = True"
| "is_request (Delay ms) = False"

definition makeRequest :: "network \<Rightarrow> string \<Rightarrow> event list \<Rightarrow> response \<times> event list" where
  "makeRequest net url tr = (net (length (filter is_request tr)) url, tr @ [Request url])"

text \<open>The body of the \<open>try\<close> block of \<open>fetch\<close>: one attempt.\<close>

definition attempt ::
  "(string \<Rightarrow> bool) \<Rightarrow> network \<Rightarrow> string \<Rightarrow> event list \<Rightarrow> (error + string) \<times> event list"
where
  "attempt parses net url tr =
     (case validateUrl parses url of
        Inl e \<Rightarrow> (Inl e, tr)
      | Inr _ \<Rightarrow>
          (case makeRequest net url tr of
             (Reject e, tr') \<Rightarrow> (Inl e, tr')
           | (Resolve html, tr') \<Rightarrow>
               (case validateHtml html of
                  Inl e \<Rightarrow> (Inl e, tr')
                | Inr _ \<Rightarrow> (Inr html, tr'))))"

text \<open>How an attempt ends whose request ended with the given response.\<close>

definition outcome :: "response \<Rightarrow> error + string" where
  "outcome r =
     (case r of
        Reject e \<Rightarrow> Inl e
      | Resolve html \<Rightarrow> (case validateHtml html of Inl e \<Rightarrow> Inl e | Inr _ \<Rightarrow> Inr html))"

text \<open>
  \<open>fetch\<close>: the \<open>catch\<close> block handles whatever the attempt threw, retries after the
  delay while \<open>retryCount < maxRetries - 1\<close> (a comparison of JavaScript numbers, here
  of integers), and otherwise throws the error that wraps the message of the caught one.
  An error thrown by the recursive call leaves the \<open>catch\<close> block as it is.
\<close>

function fetch ::
  "HttpClient \<Rightarrow> (string \<Rightarrow> bool) \<Rightarrow> network \<Rightarrow> string \<Rightarrow> nat \<Rightarrow> event list
     \<Rightarrow> (error + string) \<times> event list"
where
  "fetch c parses net url retryCount tr =
     (case attempt parses net url tr of
        (Inr html, tr') \<Rightarrow> (Inr html, tr')
      | (Inl e, tr') \<Rightarrow>
          if int retryCount < int (maxRetries c) - 1
          then fetch c parses net url (retryCount + 1) (tr' @ [Delay (retryDelay c)])
          else (Inl (FetchFailed (maxRetries c) e), tr'))"
  by pat_completeness auto
termination
  by (relation "measure (\<lambda>(c, parses, net, url, retryCount, tr). maxRetries c - retryCount)") auto

declare fetch.simps [simp del]

text \<open>Stand-ins for the platform and the network, for evaluating runs.\<close>

definition https_only :: "string \<Rightarrow> bool" where
  "https_only url \<longleftrightarrow> take 8 url = ''https://''"

definition net_down :: network where
  "net_down n url = Reject (NetworkError ''ECONNREFUSED'')"



definition net_ctf :: network where
  "net_ctf n url =
     (if url = ''https://c'' then Resolve ''<html>page</html>''
      else if url = ''https://f'' then Resolve ''<p> sunbeam </p> ''
      else Reject (HttpStatus 404 ''Not Found''))"

definition net_page_once :: network where
  "net_page_once n url =
     (if n = 0 then Resolve ''<html>page</html>'' else Reject (HttpStatus 404 ''Not Found''))"

definition stub_url :: strategy where
  "stub_url html = Inr [''h'', ''t'', ''t'', ''p'', ''s'', '':'', ''/'', ''/'', ''f'']"

section \<open>UrlExtractor\<close>

text \<open>
  \<open>response.replace(/<[^>]*>/g, "")\<close>: wherever the pattern matches, the match is left
  out and the search goes on behind it; a character at which it does not match is kept.
\<close>

definition tag_pattern :: "item list" where
  "tag_pattern = [Lit ''<'', Star (NotChar (CHR ''>'')), Lit ''>'']"

function replace_tags :: "string \<Rightarrow> string" where
  "replace_tags [] = []"
| "replace_tags (c # s) =
     (case rmatch False tag_pattern (c # s) of
        Some (captured, rest) \<Rightarrow> replace_tags rest
      | None \<Rightarrow> c # replace_tags s)"
  by pat_completeness auto
termination
proof (relation "measure length")
  fix c s captured rest x
  assume "rmatch False tag_pattern (c # s) = Some x" and "(captured, rest) = x"
  then have "rmatch False tag_pattern (c # s) = Some (captured, rest)" by simp
  from rmatch_consumes [OF this] show "(rest, c # s) \<in> measure length"
    by (simp add: tag_pattern_def)
qed auto

definition fetchHtml ::
  "HttpClient \<Rightarrow> (string \<Rightarrow> bool) \<Rightarrow> network \<Rightarrow> string \<Rightarrow> event list
     \<Rightarrow> (error + string) \<times> event list"
where
  "fetchHtml c parses net url tr =
     (case fetch c parses net url 0 tr of
        (Inr html, tr') \<Rightarrow> (Inr html, tr')
      | (Inl e, tr') \<Rightarrow> (Inl (FetchHtmlFailed e), tr'))"

definition extractCharacters :: "strategy list \<Rightarrow> string \<Rightarrow> error + string list" where
  "extractCharacters strategies html =
     (case fst (parse strategies html) of
        Inr characters \<Rightarrow> Inr characters
      | Inl e \<Rightarrow> Inl (ExtractCharactersFailed e))"

text \<open>\<open>characters.join("")\<close> is \<open>concat\<close>. Both branches of \<open>_buildUrl\<close> return it.\<close>

definition buildUrl :: "(string \<Rightarrow> bool) \<Rightarrow> string list \<Rightarrow> string" where
  "buildUrl parses characters =
     (case validateUrl parses (concat characters) of
        Inr _ \<Rightarrow> concat characters
      | Inl e \<Rightarrow> concat characters)"

definition fetchFlag ::
  "HttpClient \<Rightarrow> (string \<Rightarrow> bool) \<Rightarrow> network \<Rightarrow> string \<Rightarrow> event list
     \<Rightarrow> string option \<times> event list"
where
  "fetchFlag c parses net hiddenUrl tr =
     (case fetch c parses net hiddenUrl 0 tr of
        (Inr response, tr') \<Rightarrow> (Some (trim (replace_tags response)), tr')
      | (Inl e, tr') \<Rightarrow> (None, tr'))"

text \<open>\<open>UrlExtractor.extract\<close>, the run of the pipeline, and the object it returns.\<close>

record extraction =
  url :: string
  flag :: "string option"
  characters :: "string list"
  characterCount :: nat

definition run ::
  "HttpClient \<Rightarrow> (string \<Rightarrow> bool) \<Rightarrow> network \<Rightarrow> strategy list \<Rightarrow> string \<Rightarrow> event list
     \<Rightarrow> (error + extraction) \<times> event list"
where
  "run c parses net strategies challengeUrl tr =
     (case fetchHtml c parses net challengeUrl tr of
        (Inl e, tr1) \<Rightarrow> (Inl e, tr1)
      | (Inr html, tr1) \<Rightarrow>
          (case extractCharacters strategies html of
             Inl e \<Rightarrow> (Inl e, tr1)
           | Inr cs \<Rightarrow>
               (let hiddenUrl = buildUrl parses cs;
                    (flag, tr2) = fetchFlag c parses net hiddenUrl tr1
                in (Inr \<lparr>url = hiddenUrl, flag = flag, characters = cs,
                          characterCount = length cs\<rparr>, tr2))))"

section \<open>Documents\<close>

text \<open>
  The pattern constants of \<open>config/constants\<close>.
\<close>

definition SECTION_DATA_ID :: string where "SECTION_DATA_ID = ''92''"
definition ARTICLE_DATA_CLASS :: string where "ARTICLE_DATA_CLASS = ''45''"
definition DIV_DATA_TAG :: string where "DIV_DATA_TAG = ''78''"
definition B_CLASS :: string where "B_CLASS = ''ref''"
definition VALUE_ATTRIBUTE :: string where "VALUE_ATTRIBUTE = ''value''"

text \<open>
  A parsed document is the list of the children of its document node. An element has
  its namespace URI (the empty string when it is in no namespace), its local name, its
  attributes in the order of the source text, and its children. The two DOM parsers
  are libraries outside the repository; a strategy takes its parser as a parameter.
  Both put the elements of an HTML text in the XHTML namespace: \<open>xmldom\<close> when
  \<open>parseFromString\<close> is called with \<open>text/html\<close> (but for an element under an
  \<open>xmlns\<close> attribute, which gets the namespace that attribute names), \<open>jsdom\<close> always.
\<close>

datatype node = Element string string "(string \<times> string) list" "node list" | TextNode string

type_synonym document = "node list"

type_synonym parser = "string \<Rightarrow> error + document"

definition XHTML :: string where "XHTML = ''http://www.w3.org/1999/xhtml''"

fun namespaceURI :: "node \<Rightarrow> string" where
  "namespaceURI (Element ns t as cs) = ns"
| "namespaceURI (TextNode s) = []"

fun tagName :: "node \<Rightarrow> string option" where
  "tagName (Element ns t as cs) = Some t"
| "tagName (TextNode s) = None"


text \<open>\<open>getAttribute\<close> of the DOM: the value of the attribute, \<open>null\<close> when it is absent.\<close>

fun getAttribute :: "node \<Rightarrow> string \<Rightarrow> string option" where
  "getAttribute (Element ns t as cs) name = map_of as name"
| "getAttribute (TextNode s) name = None"

text \<open>
  \<open>getAttribute\<close> of an \<open>xmldom\<close> element is \<open>attr && attr.value || ''\<close>: the value of
  the attribute, and the empty string when it is absent. A text node has no such
  method (the call throws).
\<close>

fun xmldom_getAttribute :: "node \<Rightarrow> string \<Rightarrow> string option" where
  "xmldom_getAttribute (Element ns t as cs) name =
     Some (case map_of as name of Some v \<Rightarrow> v | None \<Rightarrow> [])"
| "xmldom_getAttribute (TextNode s) name = None"

text \<open>
  The nodes below a node and the nodes of a list of trees, in document order (a node
  before its descendants, these before its following siblings).
\<close>

fun nodes :: "node list \<Rightarrow> node list"
  and descendants :: "node \<Rightarrow> node list"
where
  "nodes [] = []"
| "nodes (c # cs) = c # descendants c @ nodes cs"
| "descendants (Element ns t as cs) = nodes cs"
| "descendants (TextNode s) = []"

text \<open>The same nodes, each with its ancestors, the nearest first.\<close>

fun nodes_under :: "node list \<Rightarrow> node list \<Rightarrow> (node list \<times> node) list"
  and descendants_under :: "node list \<Rightarrow> node \<Rightarrow> (node list \<times> node) list"
where
  "nodes_under ancestors [] = []"
| "nodes_under ancestors (c # cs) =
     (ancestors, c) # descendants_under ancestors c @ nodes_under ancestors cs"
| "descendants_under ancestors (Element ns t as cs) =
     nodes_under (Element ns t as cs # ancestors) cs"
| "descendants_under ancestors (TextNode s) = []"

text \<open>The source text of a tree whose attribute values need no escaping.\<close>

definition attribute_text :: "string \<times> string \<Rightarrow> string" where
  "attribute_text a = '' '' @ fst a @ ''=\"'' @ snd a @ ''\"''"

fun outerHTML :: "node \<Rightarrow> string" where
  "outerHTML (Element ns t as cs) =
     ''<'' @ t @ concat (map attribute_text as) @ ''>'' @ concat (map outerHTML cs)
       @ ''</'' @ t @ ''>''"
| "outerHTML (TextNode s) = s"

text \<open>
  The body of the two \<open>forEach\<close> loops over the matched elements:
  \<open>if (value !== null && value !== undefined) characters.push(value)\<close>.
\<close>

fun pushed :: "string option \<Rightarrow> string list" where
  "pushed (Some v) = [v]"
| "pushed None = []"

section \<open>XPathStrategy\<close>

text \<open>
  The expression of \<open>_buildXPathExpression\<close> is a sequence of steps \<open>//name[predicate]\<close>.
  \<open>xpath.select\<close> evaluates it with no namespace resolver, and the names of the steps
  have no prefix: such a name test passes an element only when the element is in no
  namespace and has that local name. \<open>contains(@a, 'v')\<close> holds when the value of the
  attribute \<open>a\<close> (the empty string when the element has none) has \<open>v\<close> as a substring;
  \<open>@a = 'v'\<close> holds when the element has the attribute \<open>a\<close> with exactly the value \<open>v\<close>.
\<close>

datatype predicate = Contains string string | Equals string string

datatype step = Step string predicate

definition buildXPathExpression :: "step list" where
  "buildXPathExpression =
     [Step ''section'' (Contains ''data-id'' SECTION_DATA_ID),
      Step ''article'' (Contains ''data-class'' ARTICLE_DATA_CLASS),
      Step ''div'' (Contains ''data-tag'' DIV_DATA_TAG),
      Step ''b'' (Equals ''class'' B_CLASS)]"

fun holds :: "predicate \<Rightarrow> node \<Rightarrow> bool" where
  "holds (Contains a v) n = sublist v (case getAttribute n a of Some x \<Rightarrow> x | None \<Rightarrow> [])"
| "holds (Equals a v) n = (getAttribute n a = Some v)"

fun step_test :: "step \<Rightarrow> node \<Rightarrow> bool" where
  "step_test (Step name p) n = (tagName n = Some name \<and> namespaceURI n = [] \<and> holds p n)"

text \<open>
  A node is selected by \<open>//s1 ... //sk\<close> when it passes the test of \<open>sk\<close> and, for
  \<open>k > 1\<close>, has an ancestor that is selected by \<open>//s1 ... //s(k-1)\<close>. \<open>selected\<close> takes
  the steps last first and the ancestors nearest first. \<open>xpath.select\<close> returns the
  selected nodes in document order, each once.
\<close>

fun selected :: "step list \<Rightarrow> node list \<Rightarrow> node \<Rightarrow> bool"
  and ancestor_selected :: "step list \<Rightarrow> node list \<Rightarrow> bool"
where
  "selected [] ancestors n = False"
| "selected [s] ancestors n = step_test s n"
| "selected (s # s' # previous) ancestors n =
     (step_test s n \<and> ancestor_selected (s' # previous) ancestors)"
| "ancestor_selected steps [] = False"
| "ancestor_selected steps (a # ancestors) =
     (selected steps ancestors a \<or> ancestor_selected steps ancestors)"

definition select :: "step list \<Rightarrow> document \<Rightarrow> node list" where
  "select expression doc =
     map snd (filter (\<lambda>(ancestors, n). selected (rev expression) ancestors n) (nodes_under [] doc))"

definition XPathStrategy_extract :: "parser \<Rightarrow> strategy" where
  "XPathStrategy_extract parseFromString html =
     (case parseFromString html of
        Inl e \<Rightarrow> Inl (XPathFailed e)
      | Inr doc \<Rightarrow>
          Inr (concat (map (\<lambda>n. pushed (xmldom_getAttribute n VALUE_ATTRIBUTE))
                 (select buildXPathExpression doc))))"

section \<open>JSDOMStrategy\<close>

text \<open>
  \<open>new JSDOM(html)\<close> parses the text as HTML. The document is in quirks mode
  (\<open>BackCompat\<close>) when the text has no doctype, and in no-quirks mode (\<open>CSS1Compat\<close>)
  when it starts with \<open><!DOCTYPE html>\<close>; the parser tells which.
\<close>

datatype compatMode = BackCompat | CSS1Compat

type_synonym jsdom_parser = "string \<Rightarrow> error + compatMode \<times> document"

text \<open>
  The selectors of \<open>_buildSelector\<close>: a type selector with conditions. \<open>[a*="v"]\<close> holds
  when the element has the attribute \<open>a\<close> and its value has the non-empty \<open>v\<close> as a
  substring; \<open>.c\<close> holds when \<open>c\<close> is one of the tokens of the class attribute, which
  ASCII white space separates, the letters compared without regard to their case in
  a quirks-mode document; \<open>[a]\<close> holds when the element has the attribute \<open>a\<close>.
\<close>

datatype condition = AttrContains string string | HasClass string | HasAttr string

datatype selector = Selector string "condition list"

record selectors =
  section_selector :: selector
  article_selector :: selector
  div_selector :: selector
  b_selector :: selector

definition buildSelector :: selectors where
  "buildSelector =
     \<lparr>section_selector = Selector ''section'' [AttrContains ''data-id'' SECTION_DATA_ID],
      article_selector = Selector ''article'' [AttrContains ''data-class'' ARTICLE_DATA_CLASS],
      div_selector = Selector ''div'' [AttrContains ''data-tag'' DIV_DATA_TAG],
      b_selector = Selector ''b'' [HasClass B_CLASS, HasAttr VALUE_ATTRIBUTE]\<rparr>"

definition is_ascii_white :: "char \<Rightarrow> bool" where
  "is_ascii_white c \<longleftrightarrow> c \<in> set [CHR 0x09, CHR 0x0A, CHR 0x0C, CHR 0x0D, CHR 0x20]"

fun tokens :: "string \<Rightarrow> string \<Rightarrow> string list" where
  "tokens current [] = (if current = [] then [] else [current])"
| "tokens current (c # s) =
     (if is_ascii_white c then (if current = [] then tokens [] s else current # tokens [] s)
      else tokens (current @ [c]) s)"

definition classList :: "node \<Rightarrow> string list" where
  "classList n = (case getAttribute n ''class'' of Some v \<Rightarrow> tokens [] v | None \<Rightarrow> [])"

fun meets :: "compatMode \<Rightarrow> condition \<Rightarrow> node \<Rightarrow> bool" where
  "meets mode (AttrContains a v) n =
     (case getAttribute n a of Some x \<Rightarrow> v \<noteq> [] \<and> sublist v x | None \<Rightarrow> False)"
| "meets mode (HasClass c) n =
     list_ex (\<lambda>token. same_text (mode = BackCompat) c token) (classList n)"
| "meets mode (HasAttr a) n = (getAttribute n a \<noteq> None)"

fun matches :: "compatMode \<Rightarrow> selector \<Rightarrow> node \<Rightarrow> bool" where
  "matches mode (Selector name conditions) n =
     (tagName n = Some name \<and> list_all (\<lambda>c. meets mode c n) conditions)"

text \<open>
  \<open>querySelectorAll\<close> of an element and of the document: the matching descendants, in
  document order.
\<close>

definition querySelectorAll :: "compatMode \<Rightarrow> node \<Rightarrow> selector \<Rightarrow> node list" where
  "querySelectorAll mode n sel = filter (matches mode sel) (descendants n)"

definition document_querySelectorAll :: "compatMode \<Rightarrow> document \<Rightarrow> selector \<Rightarrow> node list" where
  "document_querySelectorAll mode doc sel = filter (matches mode sel) (nodes doc)"

text \<open>The four nested \<open>forEach\<close> loops, the innermost first.\<close>

definition div_characters :: "compatMode \<Rightarrow> node \<Rightarrow> string list" where
  "div_characters mode d =
     concat (map (\<lambda>b. pushed (getAttribute b VALUE_ATTRIBUTE))
       (querySelectorAll mode d (b_selector buildSelector)))"

definition article_characters :: "compatMode \<Rightarrow> node \<Rightarrow> string list" where
  "article_characters mode a =
     concat (map (div_characters mode) (querySelectorAll mode a (div_selector buildSelector)))"

definition section_characters :: "compatMode \<Rightarrow> node \<Rightarrow> string list" where
  "section_characters mode s =
     concat (map (article_characters mode)
       (querySelectorAll mode s (article_selector buildSelector)))"

definition JSDOMStrategy_extract :: "jsdom_parser \<Rightarrow> strategy" where
  "JSDOMStrategy_extract jsdom html =
     (case jsdom html of
        Inl e \<Rightarrow> Inl (JSDOMFailed e)
      | Inr (mode, doc) \<Rightarrow>
          Inr (concat (map (section_characters mode)
                 (document_querySelectorAll mode doc (section_selector buildSelector)))))"

section \<open>RegexStrategy\<close>

text \<open>
  The pattern of \<open>_buildRegexPattern\<close>: its four parts, joined and compiled with the
  flags \<open>gi\<close>.
\<close>

definition sectionPattern :: "item list" where
  "sectionPattern =
     [Lit ''<section'', Star (NotChar (CHR ''>'')), Lit ''data-id=\"'',
      Star (NotChar (CHR 0x22)), Lit SECTION_DATA_ID, Star (NotChar (CHR 0x22)), Lit ''\"'',
      Star (NotChar (CHR ''>'')), Lit ''>'']"

definition articlePattern :: "item list" where
  "articlePattern =
     [LazyStar AnyChar, Lit ''<article'', Star (NotChar (CHR ''>'')), Lit ''data-class=\"'',
      Star (NotChar (CHR 0x22)), Lit ARTICLE_DATA_CLASS, Star (NotChar (CHR 0x22)), Lit ''\"'',
      Star (NotChar (CHR ''>'')), Lit ''>'']"

definition divPattern :: "item list" where
  "divPattern =
     [LazyStar AnyChar, Lit ''<div'', Star (NotChar (CHR ''>'')), Lit ''data-tag=\"'',
      Star (NotChar (CHR 0x22)), Lit DIV_DATA_TAG, Star (NotChar (CHR 0x22)), Lit ''\"'',
      Star (NotChar (CHR ''>'')), Lit ''>'']"

definition bPattern :: "item list" where
  "bPattern =
     [LazyStar AnyChar, Lit ''<b'', Star (NotChar (CHR ''>'')),
      Lit (''class=\"'' @ B_CLASS @ ''\"''), Star (NotChar (CHR ''>'')),
      Lit (VALUE_ATTRIBUTE @ ''=\"''), Group (NotChar (CHR 0x22)), Lit ''\"'',
      Star (NotChar (CHR ''>'')), Lit ''>'']"

definition buildRegexPattern :: "item list" where
  "buildRegexPattern = sectionPattern @ articlePattern @ divPattern @ bPattern"

text \<open>
  The \<open>while\<close> loop: each \<open>exec\<close> starts where the last match ended and pushes the text
  of the group; the loop ends when \<open>exec\<close> finds no match.
\<close>

function regex_loop :: "string \<Rightarrow> string list" where
  "regex_loop html =
     (case exec True buildRegexPattern html of
        None \<Rightarrow> []
      | Some (value, rest) \<Rightarrow> value # regex_loop rest)"
  by pat_completeness auto
termination
proof (relation "measure length")
  fix html m v rest
  assume "exec True buildRegexPattern html = Some m" and "(v, rest) = m"
  then have "exec True buildRegexPattern html = Some (v, rest)" by simp
  from exec_consumes [OF this] show "(rest, html) \<in> measure length"
    by (simp add: buildRegexPattern_def sectionPattern_def)
qed auto

declare regex_loop.simps [simp del]

definition RegexStrategy_extract :: strategy where
  "RegexStrategy_extract html = Inr (regex_loop html)"

text \<open>A parser that knows one document: it yields the tree for the text given with it.\<close>

definition parser_of :: "string \<Rightarrow> 'a \<Rightarrow> string \<Rightarrow> error + 'a" where
  "parser_of text doc html = (if html = text then Inr doc else Inl (ParserError ''unknown document''))"
section \<open>Matching structures\<close>

text \<open>
  The elements the JSDOM strategy reaches in its innermost loop, in the order of the
  loops: an element is listed once for every way the loops reach it.
\<close>

definition div_elements :: "compatMode \<Rightarrow> node \<Rightarrow> node list" where
  "div_elements mode d = querySelectorAll mode d (b_selector buildSelector)"

definition article_elements :: "compatMode \<Rightarrow> node \<Rightarrow> node list" where
  "article_elements mode a =
     concat (map (div_elements mode) (querySelectorAll mode a (div_selector buildSelector)))"

definition section_elements :: "compatMode \<Rightarrow> node \<Rightarrow> node list" where
  "section_elements mode s =
     concat (map (article_elements mode) (querySelectorAll mode s (article_selector buildSelector)))"

definition visited :: "compatMode \<Rightarrow> document \<Rightarrow> node list" where
  "visited mode doc =
     concat (map (section_elements mode)
       (document_querySelectorAll mode doc (section_selector buildSelector)))"

text \<open>
  The pattern in the words of the specification: a section whose \<open>data-id\<close> contains
  "92", an article whose \<open>data-class\<close> contains "45", a div whose \<open>data-tag\<close> contains
  "78", and a \<open>b\<close> whose class equals "ref" and that has the attribute \<open>value\<close>.
\<close>

definition spec_section :: "node \<Rightarrow> bool" where
  "spec_section n \<longleftrightarrow> tagName n = Some ''section''
     \<and> (case getAttribute n ''data-id'' of Some x \<Rightarrow> sublist ''92'' x | None \<Rightarrow> False)"

definition spec_article :: "node \<Rightarrow> bool" where
  "spec_article n \<longleftrightarrow> tagName n = Some ''article''
     \<and> (case getAttribute n ''data-class'' of Some x \<Rightarrow> sublist ''45'' x | None \<Rightarrow> False)"

definition spec_div :: "node \<Rightarrow> bool" where
  "spec_div n \<longleftrightarrow> tagName n = Some ''div''
     \<and> (case getAttribute n ''data-tag'' of Some x \<Rightarrow> sublist ''78'' x | None \<Rightarrow> False)"

definition spec_b :: "node \<Rightarrow> bool" where
  "spec_b n \<longleftrightarrow> tagName n = Some ''b'' \<and> getAttribute n ''class'' = Some ''ref''
     \<and> getAttribute n ''value'' \<noteq> None"

text \<open>
  \<open>inside tests ancestors\<close>: going outwards from a node, its ancestors hold a node for
  each of the tests in turn. The matching elements of a document are the \<open>b\<close> elements
  of the pattern that lie in a div of the pattern that lies in an article of the
  pattern that lies in a section of the pattern, in document order, each once; the
  matching values are their \<open>value\<close> attributes.
\<close>

fun inside :: "(node \<Rightarrow> bool) list \<Rightarrow> node list \<Rightarrow> bool" where
  "inside [] ancestors = True"
| "inside (p # ps) [] = False"
| "inside (p # ps) (a # ancestors) = (p a \<and> inside ps ancestors \<or> inside (p # ps) ancestors)"

definition matching_elements :: "document \<Rightarrow> node list" where
  "matching_elements doc =
     map snd (filter (\<lambda>(ancestors, n). spec_b n \<and> inside [spec_div, spec_article, spec_section] ancestors)
       (nodes_under [] doc))"

definition matching_values :: "document \<Rightarrow> string list" where
  "matching_values doc =
     concat (map (\<lambda>n. pushed (getAttribute n ''value'')) (matching_elements doc))"





text \<open>
  A structure: a section that holds an article that holds a div that holds the
  innermost elements, each of the three with its one attribute.
\<close>

definition "structure" :: "string \<Rightarrow> string \<Rightarrow> string \<Rightarrow> node list \<Rightarrow> node" where
  "structure sid acl dtg bs =
     Element XHTML ''section'' [(''data-id'', sid)]
       [Element XHTML ''article'' [(''data-class'', acl)]
          [Element XHTML ''div'' [(''data-tag'', dtg)] bs]]"

definition ref_b :: "string \<Rightarrow> node" where
  "ref_b v = Element XHTML ''b'' [(''class'', ''ref''), (''value'', v)] []"


definition html_page :: "document \<Rightarrow> document" where
  "html_page body =
     [Element XHTML ''html'' [] [Element XHTML ''head'' [] [], Element XHTML ''body'' [] body]]"

definition source :: "document \<Rightarrow> string" where
  "source doc = concat (map outerHTML doc)"















definition class_ref_bold :: document where
  "class_ref_bold =
     [structure ''92'' ''45'' ''78''
        [Element XHTML ''b'' [(''class'', ''ref bold''), (''value'', ''x'')] []]]"

definition class_upper_case :: document where
  "class_upper_case =
     [structure ''92'' ''45'' ''78'' [Element XHTML ''b'' [(''class'', ''REF''), (''value'', ''x'')] []]]"


definition data_value_only :: document where
  "data_value_only =
     [structure ''92'' ''45'' ''78''
        [Element XHTML ''b'' [(''class'', ''ref''), (''data-value'', ''x'')] []]]"





text \<open>
  The tree \<open>xmldom\<close> makes of a text whose section resets the default namespace with
  \<open>xmlns=""\<close>: its elements are in no namespace. The innermost element has no value.
\<close>

definition no_namespace :: document where
  "no_namespace =
     [Element [] ''section'' [(''xmlns'', []), (''data-id'', ''92'')]
        [Element [] ''article'' [(''data-class'', ''45'')]
           [Element [] ''div'' [(''data-tag'', ''78'')]
              [Element [] ''b'' [(''class'', ''ref'')] []]]]]"







section \<open>Properties of the orchestrator\<close>

lemma parse_loop_none_wins:
  "(\<forall>s \<in> set ss. \<not> wins s html) \<Longrightarrow>
   \<exists>le. parse_loop ss html i lastError calls
     = (Inl (AllStrategiesFailed le), calls @ [i ..< i + length ss])"
proof (induction ss arbitrary: i lastError calls)
  case Nil
  then show ?case by simp
next
  case (Cons s ss)
  have tail: "\<forall>t \<in> set ss. \<not> wins t html" using Cons.prems by simp
  have idx: "(calls @ [i]) @ [Suc i ..< Suc i + length ss] = calls @ [i ..< i + length (s # ss)]"
    by (simp add: upt_rec)
  show ?case
  proof (cases "s html")
    case (Inl e)
    from Cons.IH [OF tail, of "Suc i" "Some e" "calls @ [i]"] Inl idx show ?thesis by auto
  next
    case (Inr cs)
    with Cons.prems have "cs = []" by (simp add: wins_def)
    with Cons.IH [OF tail, of "Suc i" lastError "calls @ [i]"] Inr idx show ?thesis by auto
  qed
qed

lemma parse_loop_all_empty:
  "(\<forall>s \<in> set ss. s html = Inr []) \<Longrightarrow>
   parse_loop ss html i lastError calls
     = (Inl (AllStrategiesFailed lastError), calls @ [i ..< i + length ss])"
proof (induction ss arbitrary: i calls)
  case Nil
  then show ?case by simp
next
  case (Cons s ss)
  have idx: "(calls @ [i]) @ [Suc i ..< Suc i + length ss] = calls @ [i ..< i + length (s # ss)]"
    by (simp add: upt_rec)
  from Cons.prems have "s html = Inr []" and "\<forall>t \<in> set ss. t html = Inr []" by simp_all
  with Cons.IH [of "Suc i" "calls @ [i]"] idx show ?case by simp
qed

lemma parse_loop_first_winner:
  "wins s html \<Longrightarrow> (\<forall>t \<in> set pre. \<not> wins t html) \<Longrightarrow>
   parse_loop (pre @ s # post) html i lastError calls
     = (s html, calls @ [i ..< Suc (i + length pre)])"
proof (induction pre arbitrary: i lastError calls)
  case Nil
  then show ?case
    by (auto simp: wins_def validateCharacters_def split: sum.splits)
next
  case (Cons p pre)
  have tail: "\<forall>t \<in> set pre. \<not> wins t html" using Cons.prems by simp
  have idx: "(calls @ [i]) @ [Suc i ..< Suc (Suc i + length pre)]
               = calls @ [i ..< Suc (i + length (p # pre))]"
    by (simp add: upt_rec)
  show ?case
  proof (cases "p html")
    case (Inl e)
    from Cons.IH [OF Cons.prems(1) tail, of "Suc i" "Some e" "calls @ [i]"] Inl idx
    show ?thesis by simp
  next
    case (Inr cs)
    with Cons.prems have "cs = []" by (simp add: wins_def)
    with Cons.IH [OF Cons.prems(1) tail, of "Suc i" lastError "calls @ [i]"] Inr idx
    show ?thesis by simp
  qed
qed

lemma some_winner_split:
  "\<not> (\<forall>s \<in> set ss. \<not> wins s html) \<Longrightarrow>
   \<exists>pre s post. ss = pre @ s # post \<and> wins s html \<and> (\<forall>t \<in> set pre. \<not> wins t html)"
proof -
  assume "\<not> (\<forall>s \<in> set ss. \<not> wins s html)"
  then have "\<exists>s \<in> set ss. wins s html" by simp
  then show ?thesis by (rule split_list_first_prop)
qed

text \<open>
  C2. Whatever the document and the list of strategies, \<open>parse\<close> invokes the strategies
  in order, each at most once, and invokes none after one that returned a non-empty
  sequence: the calls are the strategies \<open>0..n-1\<close>, and none of the strategies before
  the last one called returned a non-empty sequence. When \<open>parse\<close> returns a sequence,
  it is the non-empty output of the last strategy called, and of that strategy alone.
\<close>

theorem parse_stops_at_first_winner:
  assumes "parse strategies html = (r, calls)"
  shows "\<exists>n. n \<le> length strategies \<and> calls = [0 ..< n]
           \<and> (\<forall>j. Suc j < n \<longrightarrow> \<not> wins (strategies ! j) html)
           \<and> (\<forall>cs. r = Inr cs \<longrightarrow> 0 < n \<and> (strategies ! (n - 1)) html = Inr cs \<and> cs \<noteq> [])"
proof (cases "validateHtml html")
  case (Inl e)
  with assms have "r = Inl e" and "calls = []" by (simp_all add: parse_def)
  then show ?thesis by (intro exI [of _ 0]) simp
next
  case (Inr ok)
  then have run: "parse_loop strategies html 0 None [] = (r, calls)"
    using assms by (simp add: parse_def)
  show ?thesis
  proof (cases "\<forall>s \<in> set strategies. \<not> wins s html")
    case True
    from parse_loop_none_wins [OF True, of 0 None "[]"] run
    obtain le where "r = Inl (AllStrategiesFailed le)" and "calls = [0 ..< length strategies]"
      by auto
    with True show ?thesis by (intro exI [of _ "length strategies"]) simp
  next
    case False
    from some_winner_split [OF False] obtain pre s post where
      split: "strategies = pre @ s # post" and win: "wins s html"
      and before: "\<forall>t \<in> set pre. \<not> wins t html" by blast
    from parse_loop_first_winner [OF win before, of post 0 None "[]"] run split
    have r: "r = s html" and calls: "calls = [0 ..< Suc (length pre)]" by simp_all
    have nth_pre: "\<not> wins (strategies ! j) html" if "j < length pre" for j
      using that before split by (simp add: nth_append)
    have last_call: "strategies ! length pre = s" using split by simp
    from win obtain cs where out: "s html = Inr cs" and ne: "cs \<noteq> []"
      by (auto simp: wins_def split: sum.splits)
    show ?thesis
      using split calls r out ne nth_pre last_call
      by (intro exI [of _ "Suc (length pre)"]) simp
  qed
qed

theorem parse_stops_at_first_winner_witness:
  "parse [stub_throws, stub_empty, stub_ab, stub_z] ''<p>'' = (Inr [''a'', ''b''], [0, 1, 2])
   \<and> (\<exists>n. n \<le> length [stub_throws, stub_empty, stub_ab, stub_z] \<and> [0, 1, 2] = [0 ..< n]
           \<and> (\<forall>j. Suc j < n \<longrightarrow> \<not> wins ([stub_throws, stub_empty, stub_ab, stub_z] ! j) ''<p>'')
           \<and> (\<forall>cs. Inr [''a'', ''b''] = (Inr cs :: error + string list) \<longrightarrow>
                  0 < n \<and> ([stub_throws, stub_empty, stub_ab, stub_z] ! (n - 1)) ''<p>'' = Inr cs
                  \<and> cs \<noteq> []))"
proof -
  have run: "parse [stub_throws, stub_empty, stub_ab, stub_z] ''<p>'' = (Inr [''a'', ''b''], [0, 1, 2])"
    by (simp add: parse_def validateHtml_def trim_def is_white_def validateCharacters_def
        stub_throws_def stub_empty_def stub_ab_def)
  from parse_stops_at_first_winner [OF run] run show ?thesis by blast
qed

text \<open>
  C3 as stated fails on a blank document: every strategy returns the empty sequence,
  and \<open>parse\<close> fails with the validation error of the document, not with the error
  that all strategies failed.
\<close>

theorem parse_blank_document_counterexample:
  "\<not> wins stub_empty '' '' \<and> parse [stub_empty] '' '' = (Inl HtmlEmpty, [])"
  by (simp add: wins_def stub_empty_def parse_def validateHtml_def trim_def is_white_def)

text \<open>
  C3, amended. For every document that passes document validation, \<open>parse\<close> fails with
  the error that all strategies failed if and only if every strategy either raises or
  returns the empty sequence, and then every strategy has been invoked once, in order.
  A strategy that returns the empty sequence records no error: when all of them do, the
  failure carries no last error. A document that fails validation makes \<open>parse\<close> fail
  with the validation error before any strategy is invoked.
\<close>

theorem parse_fails_iff_no_winner:
  "(validateHtml html = Inr True \<longrightarrow>
       ((\<exists>le. fst (parse strategies html) = Inl (AllStrategiesFailed le))
          \<longleftrightarrow> (\<forall>s \<in> set strategies. \<not> wins s html))
     \<and> ((\<forall>s \<in> set strategies. \<not> wins s html)
          \<longrightarrow> snd (parse strategies html) = [0 ..< length strategies])
     \<and> ((\<forall>s \<in> set strategies. s html = Inr [])
          \<longrightarrow> fst (parse strategies html) = Inl (AllStrategiesFailed None)))
   \<and> (\<forall>e. validateHtml html = Inl e \<longrightarrow> parse strategies html = (Inl e, []))"
proof (intro conjI impI allI)
  fix e assume "validateHtml html = Inl e"
  then show "parse strategies html = (Inl e, [])" by (simp add: parse_def)
next
  assume valid: "validateHtml html = Inr True"
  then have run: "parse strategies html = parse_loop strategies html 0 None []"
    by (simp add: parse_def)
  show "(\<exists>le. fst (parse strategies html) = Inl (AllStrategiesFailed le))
          \<longleftrightarrow> (\<forall>s \<in> set strategies. \<not> wins s html)"
  proof
    assume none: "\<forall>s \<in> set strategies. \<not> wins s html"
    from parse_loop_none_wins [OF none, of 0 None "[]"] run
    show "\<exists>le. fst (parse strategies html) = Inl (AllStrategiesFailed le)" by auto
  next
    assume failed: "\<exists>le. fst (parse strategies html) = Inl (AllStrategiesFailed le)"
    show "\<forall>s \<in> set strategies. \<not> wins s html"
    proof (rule ccontr)
      assume some: "\<not> (\<forall>s \<in> set strategies. \<not> wins s html)"
      from some_winner_split [OF some] obtain pre s post where
        split: "strategies = pre @ s # post" and win: "wins s html"
        and before: "\<forall>t \<in> set pre. \<not> wins t html" by blast
      from parse_loop_first_winner [OF win before, of post 0 None "[]"] run split
      have "fst (parse strategies html) = s html" by simp
      with win failed show False by (auto simp: wins_def)
    qed
  qed
next
  assume valid: "validateHtml html = Inr True"
    and none: "\<forall>s \<in> set strategies. \<not> wins s html"
  from valid have run: "parse strategies html = parse_loop strategies html 0 None []"
    by (simp add: parse_def)
  from parse_loop_none_wins [OF none, of 0 None "[]"] run
  show "snd (parse strategies html) = [0 ..< length strategies]" by auto
next
  assume valid: "validateHtml html = Inr True"
    and empty: "\<forall>s \<in> set strategies. s html = Inr []"
  from valid have run: "parse strategies html = parse_loop strategies html 0 None []"
    by (simp add: parse_def)
  from parse_loop_all_empty [OF empty, of 0 None "[]"] run
  show "fst (parse strategies html) = Inl (AllStrategiesFailed None)" by simp
qed

theorem parse_fails_iff_no_winner_witness:
  "validateHtml ''<p>'' = Inr True
   \<and> \<not> wins stub_throws ''<p>'' \<and> \<not> wins stub_empty ''<p>''
   \<and> (\<exists>le. fst (parse [stub_throws, stub_empty] ''<p>'') = Inl (AllStrategiesFailed le))
   \<and> snd (parse [stub_throws, stub_empty] ''<p>'') = [0, 1]
   \<and> validateHtml [] = Inl HtmlEmptyOrInvalid
   \<and> parse [stub_throws, stub_empty] [] = (Inl HtmlEmptyOrInvalid, [])"
proof -
  have valid: "validateHtml ''<p>'' = Inr True"
    by (simp add: validateHtml_def trim_def is_white_def)
  have none: "\<forall>s \<in> set [stub_throws, stub_empty]. \<not> wins s ''<p>''"
    by (simp add: wins_def stub_throws_def stub_empty_def)
  have blank: "validateHtml [] = Inl HtmlEmptyOrInvalid"
    by (simp add: validateHtml_def)
  from parse_fails_iff_no_winner [of "''<p>''" "[stub_throws, stub_empty]"]
    parse_fails_iff_no_winner [of "[]" "[stub_throws, stub_empty]"] valid none blank
  show ?thesis by (simp add: upt_rec)
qed

section \<open>Properties of the matcher\<close>

lemma char_eq_refl [simp]: "char_eq ic a a"
  by (simp add: char_eq_def)

lemma lit_prefix_append [simp]: "lit_prefix ic l (l @ s)"
  by (induction l) simp_all

text \<open>A greedy star keeps a match that it finds after one more character.\<close>

lemma star_keeps_match:
  "(\<forall>c \<in> set t. in_cls ic k c) \<Longrightarrow> rmatch ic (Star k # r) s = Some m \<Longrightarrow>
   rmatch ic (Star k # r) (t @ s) = Some m"
  by (induction t) simp_all

text \<open>A star takes nothing from an input that is empty or starts outside its class.\<close>

lemma star_stops:
  "s = [] \<or> \<not> in_cls ic k (hd s) \<Longrightarrow> rmatch ic (Star k # r) s = rmatch ic r s"
  by (cases s) simp_all

lemma star_run:
  "(\<forall>c \<in> set t. in_cls ic k c) \<Longrightarrow> s = [] \<or> \<not> in_cls ic k (hd s) \<Longrightarrow>
   rmatch ic r s = Some m \<Longrightarrow> rmatch ic (Star k # r) (t @ s) = Some m"
  by (simp add: star_keeps_match star_stops)

section \<open>Every match conforms to the pattern\<close>

lemma lit_prefix_same_text:
  "lit_prefix ic l s \<Longrightarrow> same_text ic l (take (length l) s)"
  by (induction ic l s rule: lit_prefix.induct) (simp_all add: same_text_def)

lemma conforms_star_cons:
  assumes "conforms ic (Star k # r) x captured" and "in_cls ic k c"
  shows "conforms ic (Star k # r) (c # x) captured"
proof -
  from assms(1) obtain w x' where x: "x = w @ x'" and w: "\<forall>c \<in> set w. in_cls ic k c"
    and r: "conforms ic r x' captured"
    by (auto simp: conforms_Star)
  from w assms(2) have "\<forall>a \<in> set (c # w). in_cls ic k a" by simp
  from conforms.star [OF this r] x show ?thesis by simp
qed

lemma conforms_lazy_cons:
  assumes "conforms ic (LazyStar k # r) x captured" and "in_cls ic k c"
  shows "conforms ic (LazyStar k # r) (c # x) captured"
proof -
  from assms(1) obtain w x' where x: "x = w @ x'" and w: "\<forall>c \<in> set w. in_cls ic k c"
    and r: "conforms ic r x' captured"
    by (auto simp: conforms_LazyStar)
  from w assms(2) have "\<forall>a \<in> set (c # w). in_cls ic k a" by simp
  from conforms.lazy [OF this r] x show ?thesis by simp
qed

lemma conforms_group_cons:
  assumes "conforms ic (Group k # r) x captured" and "in_cls ic k c"
  shows "conforms ic (Group k # r) (c # x) (c # captured)"
proof -
  from assms(1) obtain w x' cap' where x: "x = w @ x'" and cap: "captured = w @ cap'"
    and w: "\<forall>c \<in> set w. in_cls ic k c" and r: "conforms ic r x' cap'"
    by (auto simp: conforms_Group)
  from w assms(2) have "\<forall>a \<in> set (c # w). in_cls ic k a" by simp
  from conforms.group [OF this r] x cap show ?thesis by simp
qed

lemma conforms_skip:
  "conforms ic r x captured \<Longrightarrow> conforms ic (Star k # r) x captured"
  "conforms ic r x captured \<Longrightarrow> conforms ic (LazyStar k # r) x captured"
  "conforms ic r x captured \<Longrightarrow> conforms ic (Group k # r) x captured"
  using conforms.star [of "[]" ic k r x captured] conforms.lazy [of "[]" ic k r x captured]
    conforms.group [of "[]" ic k r x captured]
  by simp_all

lemma rmatch_sound:
  "rmatch ic p s = Some (captured, rest) \<Longrightarrow> \<exists>x. s = x @ rest \<and> conforms ic p x captured"
proof (induction ic p s arbitrary: captured rest rule: rmatch.induct)
  case (1 ic s)
  then show ?case by (auto intro: conforms.empty)
next
  case (2 ic l r s)
  then have pre: "lit_prefix ic l s" and m: "rmatch ic r (drop (length l) s) = Some (captured, rest)"
    by (auto split: if_splits)
  from "2.IH" [OF pre m] obtain x where x: "drop (length l) s = x @ rest" "conforms ic r x captured"
    by blast
  have "s = (take (length l) s @ x) @ rest" using x(1) by (metis append.assoc append_take_drop_id)
  moreover have "conforms ic (Lit l # r) (take (length l) s @ x) captured"
    by (intro conforms.lit lit_prefix_same_text pre x(2))
  ultimately show ?case by blast
next
  case (3 ic k r)
  then show ?case by (auto intro: conforms_skip)
next
  case (4 ic k r c s)
  then show ?case
    by (fastforce split: if_splits option.splits intro: conforms_skip conforms_star_cons)
next
  case (5 ic k r)
  then show ?case by (auto intro: conforms_skip)
next
  case (6 ic k r c s)
  then show ?case
    by (fastforce split: if_splits option.splits intro: conforms_skip conforms_lazy_cons)
next
  case (7 ic k r)
  then show ?case by (auto intro: conforms_skip)
next
  case (8 ic k r c s)
  then show ?case
    by (fastforce split: if_splits option.splits prod.splits intro: conforms_skip conforms_group_cons)
qed


lemma exec_sound:
  "exec ic p s = Some (captured, rest) \<Longrightarrow>
   \<exists>pre x. s = pre @ x @ rest \<and> conforms ic p x captured"
proof (induction s)
  case Nil
  from rmatch_sound [of ic p "[]" captured rest] Nil show ?case by fastforce
next
  case (Cons c s)
  show ?case
  proof (cases "rmatch ic p (c # s)")
    case None
    with Cons obtain pre x where "s = pre @ x @ rest" "conforms ic p x captured" by auto
    then have "c # s = (c # pre) @ x @ rest \<and> conforms ic p x captured" by simp
    then show ?thesis by blast
  next
    case (Some m)
    with Cons.prems have "rmatch ic p (c # s) = Some (captured, rest)" by simp
    from rmatch_sound [OF this] obtain x where "c # s = [] @ x @ rest" "conforms ic p x captured"
      by auto
    then show ?thesis by blast
  qed
qed

lemma regex_loop_sound:
  "v \<in> set (regex_loop html) \<Longrightarrow>
   \<exists>pre x rest. html = pre @ x @ rest \<and> conforms True buildRegexPattern x v"
proof (induction html rule: regex_loop.induct)
  case (1 html)
  show ?case
  proof (cases "exec True buildRegexPattern html")
    case None
    with "1.prems" show ?thesis by (simp add: regex_loop.simps [of html])
  next
    case (Some m)
    obtain w rest where m: "m = (w, rest)" by (cases m)
    from exec_sound [of True buildRegexPattern html w rest] Some m obtain pre x where
      here: "html = pre @ x @ rest" "conforms True buildRegexPattern x w" by auto
    from "1.prems" Some m have "v = w \<or> v \<in> set (regex_loop rest)"
      by (simp add: regex_loop.simps [of html])
    then show ?thesis
    proof
      assume "v = w"
      with here show ?thesis by blast
    next
      assume "v \<in> set (regex_loop rest)"
      from "1.IH" [OF Some m [symmetric] this] obtain pre' x' rest' where
        "rest = pre' @ x' @ rest'" "conforms True buildRegexPattern x' v" by blast
      with here(1) have "html = (pre @ x @ pre') @ x' @ rest' \<and> conforms True buildRegexPattern x' v"
        by simp
      then show ?thesis by blast
    qed
  qed
qed

lemma conforms_append:
  "conforms ic (p @ q) x captured \<Longrightarrow>
   \<exists>x1 x2 c1 c2. x = x1 @ x2 \<and> captured = c1 @ c2 \<and> conforms ic p x1 c1 \<and> conforms ic q x2 c2"
proof (induction p arbitrary: x captured)
  case Nil
  then have "x = [] @ x \<and> captured = [] @ captured \<and> conforms ic [] [] [] \<and> conforms ic q x captured"
    by (simp add: conforms.empty)
  then show ?case by blast
next
  case (Cons i p)
  show ?case
  proof (cases i)
    case (Lit l)
    with Cons.prems obtain w x' where x: "x = w @ x'" and w: "same_text ic l w"
      and r: "conforms ic (p @ q) x' captured"
      by (auto simp: conforms_Lit)
    from Cons.IH [OF r] obtain x1 x2 c1 c2 where
      s: "x' = x1 @ x2" "captured = c1 @ c2" "conforms ic p x1 c1" "conforms ic q x2 c2" by blast
    from conforms.lit [OF w s(3)] s x Lit
    have "x = (w @ x1) @ x2 \<and> captured = c1 @ c2 \<and> conforms ic (i # p) (w @ x1) c1
            \<and> conforms ic q x2 c2" by simp
    then show ?thesis by blast
  next
    case (Star k)
    with Cons.prems obtain w x' where x: "x = w @ x'" and w: "\<forall>c \<in> set w. in_cls ic k c"
      and r: "conforms ic (p @ q) x' captured"
      by (auto simp: conforms_Star)
    from Cons.IH [OF r] obtain x1 x2 c1 c2 where
      s: "x' = x1 @ x2" "captured = c1 @ c2" "conforms ic p x1 c1" "conforms ic q x2 c2" by blast
    from conforms.star [OF w s(3)] s x Star
    have "x = (w @ x1) @ x2 \<and> captured = c1 @ c2 \<and> conforms ic (i # p) (w @ x1) c1
            \<and> conforms ic q x2 c2" by simp
    then show ?thesis by blast
  next
    case (LazyStar k)
    with Cons.prems obtain w x' where x: "x = w @ x'" and w: "\<forall>c \<in> set w. in_cls ic k c"
      and r: "conforms ic (p @ q) x' captured"
      by (auto simp: conforms_LazyStar)
    from Cons.IH [OF r] obtain x1 x2 c1 c2 where
      s: "x' = x1 @ x2" "captured = c1 @ c2" "conforms ic p x1 c1" "conforms ic q x2 c2" by blast
    from conforms.lazy [OF w s(3)] s x LazyStar
    have "x = (w @ x1) @ x2 \<and> captured = c1 @ c2 \<and> conforms ic (i # p) (w @ x1) c1
            \<and> conforms ic q x2 c2" by simp
    then show ?thesis by blast
  next
    case (Group k)
    with Cons.prems obtain w x' cap' where x: "x = w @ x'" and cap: "captured = w @ cap'"
      and w: "\<forall>c \<in> set w. in_cls ic k c" and r: "conforms ic (p @ q) x' cap'"
      by (auto simp: conforms_Group)
    from Cons.IH [OF r] obtain x1 x2 c1 c2 where
      s: "x' = x1 @ x2" "cap' = c1 @ c2" "conforms ic p x1 c1" "conforms ic q x2 c2" by blast
    from conforms.group [OF w s(3)] s x cap Group
    have "x = (w @ x1) @ x2 \<and> captured = (w @ c1) @ c2 \<and> conforms ic (i # p) (w @ x1) (w @ c1)
            \<and> conforms ic q x2 c2" by simp
    then show ?thesis by blast
  qed
qed

lemma conforms_no_group:
  "conforms ic p x captured \<Longrightarrow> \<not> list_ex is_group p \<Longrightarrow> captured = []"
  by (induction rule: conforms.induct) simp_all

lemma canonicalize_cases:
  "canonicalize c = c \<or> canonicalize c \<in> set ''ABCDEFGHIJKLMNOPQRSTUVWXYZ''"
  unfolding canonicalize_def
  by (auto split: option.splits dest!: map_of_SomeD set_zip_rightD)

lemma char_eq_gt [simp]: "char_eq True (CHR ''>'') c \<longleftrightarrow> c = CHR ''>''"
proof -
  have "canonicalize (CHR ''>'') = CHR ''>''" by (simp add: canonicalize_bits)
  then show ?thesis using canonicalize_cases [of c] by (auto simp: char_eq_def)
qed

lemma char_eq_quote [simp]: "char_eq True (CHR 0x22) c \<longleftrightarrow> c = CHR 0x22"
proof -
  have "canonicalize (CHR 0x22) = CHR 0x22" by (simp add: canonicalize_bits)
  then show ?thesis using canonicalize_cases [of c] by (auto simp: char_eq_def)
qed

lemma same_text_gt: "same_text True ''>'' w \<longleftrightarrow> w = ''>''"
  by (auto simp: same_text_def list_all2_Cons1)

lemma same_text_quote: "same_text True [CHR 0x22] w \<longleftrightarrow> w = [CHR 0x22]"
  by (auto simp: same_text_def list_all2_Cons1)

lemma conforms_bPattern:
  assumes "conforms True bPattern x v"
  shows "\<exists>junk b g1 cls g2 val g3.
           x = junk @ b @ g1 @ cls @ g2 @ val @ v @ [CHR 0x22] @ g3 @ ''>''
           \<and> same_text True ''<b'' b \<and> same_text True ''class=\"ref\"'' cls
           \<and> same_text True ''value=\"'' val
           \<and> CHR ''>'' \<notin> set g1 \<and> CHR ''>'' \<notin> set g2 \<and> CHR ''>'' \<notin> set g3
           \<and> CHR 0x22 \<notin> set v"
  using assms unfolding bPattern_def
proof (elim conforms_LazyStarE conforms_LitE conforms_StarE conforms_GroupE conforms_NilE)
  fix junk x1 b x2 g1 x3 cls x4 g2 x5 val x6 w x7 cap q x8 g3 x9 e x10
  assume "x = junk @ x1" "x1 = b @ x2" "x2 = g1 @ x3" "x3 = cls @ x4" "x4 = g2 @ x5"
    "x5 = val @ x6" "x6 = w @ x7" "v = w @ cap" "x7 = q @ x8" "x8 = g3 @ x9" "x9 = e @ x10"
    "x10 = []" "cap = []"
    and t: "same_text True ''<b'' b" "same_text True (''class=\"'' @ B_CLASS @ ''\"'') cls"
      "same_text True (VALUE_ATTRIBUTE @ ''=\"'') val" "same_text True ''\"'' q" "same_text True ''>'' e"
    and g: "\<forall>c \<in> set g1. in_cls True (NotChar (CHR ''>'')) c"
      "\<forall>c \<in> set g2. in_cls True (NotChar (CHR ''>'')) c"
      "\<forall>c \<in> set g3. in_cls True (NotChar (CHR ''>'')) c"
      "\<forall>c \<in> set w. in_cls True (NotChar (CHR 0x22)) c"
  then have x: "x = junk @ b @ g1 @ cls @ g2 @ val @ v @ [CHR 0x22] @ g3 @ ''>''"
    by (simp add: same_text_gt same_text_quote)
  from g \<open>v = w @ cap\<close> \<open>cap = []\<close>
  have "CHR ''>'' \<notin> set g1" "CHR ''>'' \<notin> set g2" "CHR ''>'' \<notin> set g3" "CHR 0x22 \<notin> set v"
    by auto
  with x t show ?thesis
    by - (rule exI [of _ junk], rule exI [of _ b], rule exI [of _ g1], rule exI [of _ cls],
        rule exI [of _ g2], rule exI [of _ val], rule exI [of _ g3],
        simp add: B_CLASS_def VALUE_ATTRIBUTE_def)
qed

lemma regex_value_from_b_tag:
  assumes "v \<in> set (regex_loop html)"
  shows "\<exists>pre b g1 cls g2 val g3 post.
           html = pre @ b @ g1 @ cls @ g2 @ val @ v @ [CHR 0x22] @ g3 @ ''>'' @ post
           \<and> same_text True ''<b'' b \<and> same_text True ''class=\"ref\"'' cls
           \<and> same_text True ''value=\"'' val
           \<and> CHR ''>'' \<notin> set g1 \<and> CHR ''>'' \<notin> set g2 \<and> CHR ''>'' \<notin> set g3
           \<and> CHR 0x22 \<notin> set v"
proof -
  from regex_loop_sound [OF assms] obtain pre x rest where
    html: "html = pre @ x @ rest" and x: "conforms True buildRegexPattern x v" by blast
  from x have "conforms True ((sectionPattern @ articlePattern @ divPattern) @ bPattern) x v"
    by (simp add: buildRegexPattern_def)
  from conforms_append [OF this] obtain x1 x2 c1 c2 where
    s: "x = x1 @ x2" "v = c1 @ c2" "conforms True (sectionPattern @ articlePattern @ divPattern) x1 c1"
       "conforms True bPattern x2 c2" by blast
  have "c1 = []"
    by (rule conforms_no_group [OF s(3)])
       (simp add: sectionPattern_def articlePattern_def divPattern_def)
  with s have b: "conforms True bPattern x2 v" by simp
  from conforms_bPattern [OF b] show ?thesis
  proof (elim exE conjE)
    fix junk b g1 cls g2 val g3
    assume d: "x2 = junk @ b @ g1 @ cls @ g2 @ val @ v @ [CHR 0x22] @ g3 @ ''>''"
      and t: "same_text True ''<b'' b" "same_text True ''class=\"ref\"'' cls"
        "same_text True ''value=\"'' val"
      and g: "CHR ''>'' \<notin> set g1" "CHR ''>'' \<notin> set g2" "CHR ''>'' \<notin> set g3" "CHR 0x22 \<notin> set v"
    from html s(1) d
    have "html = (pre @ x1 @ junk) @ b @ g1 @ cls @ g2 @ val @ v @ [CHR 0x22] @ g3 @ ''>'' @ rest"
      by simp
    with t g show ?thesis
      by - (rule exI [of _ "pre @ x1 @ junk"], rule exI [of _ b], rule exI [of _ g1],
          rule exI [of _ cls], rule exI [of _ g2], rule exI [of _ val], rule exI [of _ g3],
          rule exI [of _ rest], simp)
  qed
qed

section \<open>The pattern on the text of a tag\<close>


lemma caseless_special [simp]:
  "caseless (CHR 0x22)" "caseless (CHR ''='')" "caseless (CHR ''>'')" "caseless (CHR ''<'')"
  "caseless (CHR '' '')"
  by (simp_all add: caseless_def)






















lemma exec_here: "rmatch ic p s = Some m \<Longrightarrow> exec ic p s = Some m"
  by (cases s) simp_all



section \<open>The pattern on a text of structures\<close>
















































section \<open>Properties of the fetcher\<close>

lemma attempt_invalid_url:
  "\<not> parses u \<Longrightarrow> attempt parses net u tr = (Inl (InvalidUrl u), tr)"
  by (simp add: attempt_def validateUrl_def)

lemma attempt_valid_url:
  "parses u \<Longrightarrow>
   attempt parses net u tr = (outcome (net (length (filter is_request tr)) u), tr @ [Request u])"
  by (simp add: attempt_def validateUrl_def makeRequest_def outcome_def
      split: response.splits sum.splits)

lemma fetch_retry:
  "attempt parses net u tr = (Inl e, tr') \<Longrightarrow> int rc < int (maxRetries c) - 1 \<Longrightarrow>
   fetch c parses net u rc tr = fetch c parses net u (Suc rc) (tr' @ [Delay (retryDelay c)])"
  by (subst fetch.simps) simp

lemma fetch_give_up:
  "attempt parses net u tr = (Inl e, tr') \<Longrightarrow> \<not> int rc < int (maxRetries c) - 1 \<Longrightarrow>
   fetch c parses net u rc tr = (Inl (FetchFailed (maxRetries c) e), tr')"
  by (subst fetch.simps) simp

lemma fetch_success:
  "attempt parses net u tr = (Inr html, tr') \<Longrightarrow> fetch c parses net u rc tr = (Inr html, tr')"
  by (subst fetch.simps) simp

text \<open>A URL that does not parse: every attempt fails before its request.\<close>

lemma fetch_invalid_url:
  assumes "\<not> parses u"
  shows "fetch c parses net u rc tr =
           (Inl (FetchFailed (maxRetries c) (InvalidUrl u)),
            tr @ replicate (maxRetries c - 1 - rc) (Delay (retryDelay c)))"
proof (induction "maxRetries c - 1 - rc" arbitrary: rc tr)
  case 0
  then have stop: "\<not> int rc < int (maxRetries c) - 1" by linarith
  from fetch_give_up [OF attempt_invalid_url stop, of parses u] assms 0 show ?case by simp
next
  case (Suc k)
  then have go: "int rc < int (maxRetries c) - 1" and k: "k = maxRetries c - 1 - Suc rc"
    by linarith+
  have rep: "maxRetries c - Suc rc = Suc (maxRetries c - Suc (Suc rc))"
    using Suc.hyps(2) by linarith
  have "fetch c parses net u rc tr = fetch c parses net u (Suc rc) (tr @ [Delay (retryDelay c)])"
    using fetch_retry [OF attempt_invalid_url go, of parses u] assms by simp
  also have "\<dots> = (Inl (FetchFailed (maxRetries c) (InvalidUrl u)),
      (tr @ [Delay (retryDelay c)]) @ replicate (maxRetries c - 1 - Suc rc) (Delay (retryDelay c)))"
    by (rule Suc.hyps(1) [OF k])
  finally show ?case by (simp add: rep)
qed

text \<open>A URL that parses, and a network on which every attempt fails.\<close>

lemma fetch_all_attempts_fail:
  assumes "parses u" and "\<forall>n. \<exists>e. outcome (net n u) = Inl e"
  shows "fetch c parses net u rc tr =
           (Inl (FetchFailed (maxRetries c)
                  (projl (outcome (net (length (filter is_request tr) + (maxRetries c - 1 - rc)) u)))),
            tr @ Request u # concat (replicate (maxRetries c - 1 - rc) [Delay (retryDelay c), Request u]))"
proof (induction "maxRetries c - 1 - rc" arbitrary: rc tr)
  case 0
  then have stop: "\<not> int rc < int (maxRetries c) - 1" by linarith
  from assms(2) obtain e where e: "outcome (net (length (filter is_request tr)) u) = Inl e"
    by blast
  then have "attempt parses net u tr = (Inl e, tr @ [Request u])"
    using assms(1) by (simp add: attempt_valid_url)
  from fetch_give_up [OF this stop] e 0 show ?case by simp
next
  case (Suc k)
  then have go: "int rc < int (maxRetries c) - 1" and k: "k = maxRetries c - 1 - Suc rc"
    by linarith+
  have rep: "maxRetries c - Suc rc = Suc (maxRetries c - Suc (Suc rc))"
    using Suc.hyps(2) by linarith
  from assms(2) obtain e where e: "outcome (net (length (filter is_request tr)) u) = Inl e"
    by blast
  then have "attempt parses net u tr = (Inl e, tr @ [Request u])"
    using assms(1) by (simp add: attempt_valid_url)
  from fetch_retry [OF this go]
  have "fetch c parses net u rc tr
          = fetch c parses net u (Suc rc) ((tr @ [Request u]) @ [Delay (retryDelay c)])" .
  also note Suc.hyps(1) [OF k, of "(tr @ [Request u]) @ [Delay (retryDelay c)]"]
  finally show ?case by (simp add: rep)
qed

lemma fetch_first_attempt_succeeds:
  assumes "parses u" and "outcome (net (length (filter is_request tr)) u) = Inr body"
  shows "fetch c parses net u rc tr = (Inr body, tr @ [Request u])"
  using assms by (intro fetch_success) (simp add: attempt_valid_url)

lemma filter_request_retries:
  "filter is_request (concat (replicate n [Delay d, Request u])) = replicate n (Request u)"
  by (induction n) simp_all

lemma filter_delay_retries:
  "filter (\<lambda>ev. \<not> is_request ev) (concat (replicate n [Delay d, Request u])) = replicate n (Delay d)"
  by (induction n) simp_all

lemmas run_defs =
  attempt_def validateUrl_def https_only_def makeRequest_def validateHtml_def trim_def
  is_white_def new_HttpClient_def HTTP_MAX_RETRIES_def HTTP_RETRY_DELAY_def HTTP_TIMEOUT_def

text \<open>
  C6 as stated fails: on a string that does not parse as a URL, \<open>fetch\<close> retries twice
  (the trace holds the two delays) and fails with the fetch error, which wraps the
  validation error; it does not fail with the validation error at once.
\<close>

theorem fetch_invalid_url_counterexample:
  "\<not> https_only ''not a url''
   \<and> fetch new_HttpClient https_only net_down ''not a url'' 0 []
       = (Inl (FetchFailed 3 (InvalidUrl ''not a url'')), [Delay 1000, Delay 1000])
   \<and> fetch new_HttpClient https_only net_down ''not a url'' 0 []
       \<noteq> (Inl (InvalidUrl ''not a url''), [])"
  by (simp add: fetch.simps run_defs)

text \<open>
  C6, amended. For every string that does not parse as a URL, \<open>fetch\<close> sends no
  request: every attempt fails in the validation of the URL and is retried like any
  other failure, after the retry delay, and after the last attempt \<open>fetch\<close> fails with
  the fetch error ("Failed to fetch URL after \<open>maxRetries\<close> attempts") that wraps the
  validation error.
\<close>

theorem fetch_invalid_url_no_request:
  assumes "\<not> parses u"
  shows "fetch c parses net u 0 []
           = (Inl (FetchFailed (maxRetries c) (InvalidUrl u)),
              replicate (maxRetries c - 1) (Delay (retryDelay c)))
         \<and> filter is_request (snd (fetch c parses net u 0 [])) = []"
  using assms fetch_invalid_url [where parses = parses and u = u and c = c and net = net
      and rc = 0 and tr = "[]"]
  by simp

theorem fetch_invalid_url_no_request_witness:
  "\<not> https_only ''ftp:x''
   \<and> fetch new_HttpClient https_only net_ctf ''ftp:x'' 0 []
       = (Inl (FetchFailed HTTP_MAX_RETRIES (InvalidUrl ''ftp:x'')),
          [Delay HTTP_RETRY_DELAY, Delay HTTP_RETRY_DELAY])
   \<and> filter is_request (snd (fetch new_HttpClient https_only net_ctf ''ftp:x'' 0 [])) = []"
proof -
  have bad: "\<not> https_only ''ftp:x''" by (simp add: https_only_def)
  have two: "replicate (HTTP_MAX_RETRIES - 1) (Delay HTTP_RETRY_DELAY)
               = [Delay HTTP_RETRY_DELAY, Delay HTTP_RETRY_DELAY]"
    by (simp add: HTTP_MAX_RETRIES_def numeral_2_eq_2)
  from fetch_invalid_url_no_request [where parses = https_only and u = "''ftp:x''"
      and c = new_HttpClient and net = net_ctf] bad two
  show ?thesis by (simp add: new_HttpClient_def)
qed

text \<open>
  C7 as stated fails: when every attempt fails, \<open>fetch\<close> sends \<open>MAX_RETRIES = 3\<close>
  requests in all, that is two retries after the first failure, not three.
\<close>

theorem fetch_retry_count_counterexample:
  "fetch new_HttpClient https_only net_down ''https://a'' 0 []
     = (Inl (FetchFailed 3 (NetworkError ''ECONNREFUSED'')),
        [Request ''https://a'', Delay 1000, Request ''https://a'', Delay 1000,
         Request ''https://a''])
   \<and> length (filter is_request (snd (fetch new_HttpClient https_only net_down ''https://a'' 0 [])))
       \<noteq> 1 + HTTP_MAX_RETRIES"
  by (simp add: fetch.simps run_defs net_down_def)

text \<open>
  C7, amended. For every URL that parses and every client with \<open>maxRetries \<ge> 1\<close>: when
  every attempt fails, \<open>fetch\<close> makes exactly \<open>maxRetries\<close> attempts in all (one request
  each, \<open>maxRetries - 1\<close> retries, each after the retry delay) and then fails with the
  fetch error that wraps the failure of the last attempt; when the first attempt
  succeeds (the request resolves with a body that passes document validation), \<open>fetch\<close>
  returns that body after this one request.
\<close>

theorem fetch_attempts:
  "(parses u \<and> 0 < maxRetries c \<and> (\<forall>n. \<exists>e. outcome (net n u) = Inl e) \<longrightarrow>
      (\<exists>e. outcome (net (maxRetries c - 1) u) = Inl e
            \<and> fst (fetch c parses net u 0 []) = Inl (FetchFailed (maxRetries c) e))
      \<and> snd (fetch c parses net u 0 [])
          = Request u # concat (replicate (maxRetries c - 1) [Delay (retryDelay c), Request u])
      \<and> length (filter is_request (snd (fetch c parses net u 0 []))) = maxRetries c
      \<and> length (filter (\<lambda>ev. \<not> is_request ev) (snd (fetch c parses net u 0 []))) = maxRetries c - 1)
   \<and> (parses u \<and> outcome (net 0 u) = Inr body \<longrightarrow>
        fetch c parses net u 0 [] = (Inr body, [Request u]))"
proof (intro conjI impI)
  assume "parses u \<and> outcome (net 0 u) = Inr body"
  then show "fetch c parses net u 0 [] = (Inr body, [Request u])"
    using fetch_first_attempt_succeeds [of parses u net "[]" body c 0] by simp
next
  assume h: "parses u \<and> 0 < maxRetries c \<and> (\<forall>n. \<exists>e. outcome (net n u) = Inl e)"
  then have all: "\<forall>n. \<exists>e. outcome (net n u) = Inl e" and ok: "parses u" by simp_all
  from ok all have run: "fetch c parses net u 0 [] =
      (Inl (FetchFailed (maxRetries c) (projl (outcome (net (maxRetries c - 1) u)))),
       Request u # concat (replicate (maxRetries c - 1) [Delay (retryDelay c), Request u]))"
    using fetch_all_attempts_fail [where parses = parses and u = u and net = net and c = c
        and rc = 0 and tr = "[]"]
    by simp
  from all obtain e where e: "outcome (net (maxRetries c - 1) u) = Inl e" by blast
  with run show "\<exists>e. outcome (net (maxRetries c - 1) u) = Inl e
            \<and> fst (fetch c parses net u 0 []) = Inl (FetchFailed (maxRetries c) e)"
    by simp
  from run show "snd (fetch c parses net u 0 [])
          = Request u # concat (replicate (maxRetries c - 1) [Delay (retryDelay c), Request u])"
    by simp
  from run h show "length (filter is_request (snd (fetch c parses net u 0 []))) = maxRetries c"
    by (simp add: filter_request_retries)
  from run show "length (filter (\<lambda>ev. \<not> is_request ev) (snd (fetch c parses net u 0 [])))
                   = maxRetries c - 1"
    by (simp add: filter_delay_retries)
qed

theorem fetch_attempts_witness:
  "https_only ''https://c'' \<and> 0 < maxRetries new_HttpClient
   \<and> outcome (net_page_once 0 ''https://c'') = Inr ''<html>page</html>''
   \<and> fetch new_HttpClient https_only net_page_once ''https://c'' 0 []
       = (Inr ''<html>page</html>'', [Request ''https://c''])
   \<and> fst (fetch new_HttpClient https_only net_down ''https://c'' 0 [])
       = Inl (FetchFailed HTTP_MAX_RETRIES (NetworkError ''ECONNREFUSED''))
   \<and> length (filter is_request (snd (fetch new_HttpClient https_only net_down ''https://c'' 0 [])))
       = HTTP_MAX_RETRIES"
proof -
  have ok: "https_only ''https://c''" by (simp add: https_only_def)
  have pos: "0 < maxRetries new_HttpClient" by (simp add: new_HttpClient_def HTTP_MAX_RETRIES_def)
  have page: "outcome (net_page_once 0 ''https://c'') = Inr ''<html>page</html>''"
    by (simp add: outcome_def net_page_once_def validateHtml_def trim_def is_white_def)
  have down: "\<forall>n. \<exists>e. outcome (net_down n ''https://c'') = Inl e"
    by (simp add: outcome_def net_down_def)
  have last: "outcome (net_down (maxRetries new_HttpClient - 1) ''https://c'')
                = Inl (NetworkError ''ECONNREFUSED'')"
    by (simp add: outcome_def net_down_def)
  from fetch_attempts [where parses = https_only and u = "''https://c''" and c = new_HttpClient
        and net = net_page_once and body = "''<html>page</html>''"]
    fetch_attempts [where parses = https_only and u = "''https://c''" and c = new_HttpClient
        and net = net_down and body = "[]"]
    ok pos page down last
  show ?thesis by (auto simp: new_HttpClient_def)
qed






section \<open>Properties of the pipeline\<close>

lemma rmatch_tag_none: "c \<noteq> CHR ''<'' \<Longrightarrow> rmatch False tag_pattern (c # s) = None"
  by (simp add: tag_pattern_def char_eq_def)

lemma rmatch_tag:
  assumes "CHR ''>'' \<notin> set t"
  shows "rmatch False tag_pattern (CHR ''<'' # t @ CHR ''>'' # s) = Some ([], s)"
proof -
  have run: "\<forall>c \<in> set t. in_cls False (NotChar (CHR ''>'')) c"
    using assms by (auto simp: char_eq_def)
  have "rmatch False [Star (NotChar (CHR ''>'')), Lit ''>''] (t @ CHR ''>'' # s) = Some ([], s)"
    by (rule star_run [OF run]) (simp_all add: char_eq_def)
  then show ?thesis by (simp add: tag_pattern_def char_eq_def)
qed

text \<open>A tag is left out, and a character that is not \<open><\<close> is kept.\<close>

lemma replace_tags_tag:
  "CHR ''>'' \<notin> set t \<Longrightarrow> replace_tags (CHR ''<'' # t @ CHR ''>'' # s) = replace_tags s"
  by (simp add: rmatch_tag)

lemma replace_tags_plain: "c \<noteq> CHR ''<'' \<Longrightarrow> replace_tags (c # s) = c # replace_tags s"
  by (simp add: rmatch_tag_none)

lemma buildUrl_concat: "buildUrl parses cs = concat cs"
  by (simp add: buildUrl_def split: sum.splits)

lemma run_after_extraction:
  assumes "fetch c parses net challengeUrl 0 tr = (Inr html, tr1)"
    and "fst (parse strategies html) = Inr cs"
  shows "run c parses net strategies challengeUrl tr
           = (Inr \<lparr>url = concat cs, flag = fst (fetchFlag c parses net (concat cs) tr1),
                    characters = cs, characterCount = length cs\<rparr>,
              snd (fetchFlag c parses net (concat cs) tr1))"
  using assms
  by (simp add: run_def fetchHtml_def extractCharacters_def buildUrl_concat Let_def split_beta)

text \<open>
  C8. In every run in which the first fetch and the extraction succeed, with the
  characters \<open>cs\<close>: when the fetch of the joined string fails, \<open>run\<close> returns
  successfully, with no flag, the joined string as the URL and the characters as they
  were extracted; when that fetch succeeds with the body \<open>R\<close>, the flag is \<open>R\<close> with
  the matches of \<open><[^>]*>\<close> left out, trimmed. Leaving the matches out removes every
  tag \<open><t>\<close> and keeps every character other than \<open><\<close>.
\<close>

theorem run_flag:
  assumes "fetch c parses net challengeUrl 0 tr = (Inr html, tr1)"
    and "fst (parse strategies html) = Inr cs"
  shows "(\<forall>e tr2. fetch c parses net (concat cs) 0 tr1 = (Inl e, tr2) \<longrightarrow>
            run c parses net strategies challengeUrl tr
              = (Inr \<lparr>url = concat cs, flag = None, characters = cs,
                       characterCount = length cs\<rparr>, tr2))
         \<and> (\<forall>R tr2. fetch c parses net (concat cs) 0 tr1 = (Inr R, tr2) \<longrightarrow>
            run c parses net strategies challengeUrl tr
              = (Inr \<lparr>url = concat cs, flag = Some (trim (replace_tags R)), characters = cs,
                       characterCount = length cs\<rparr>, tr2))
         \<and> (\<forall>t s. CHR ''>'' \<notin> set t \<longrightarrow>
              replace_tags (CHR ''<'' # t @ CHR ''>'' # s) = replace_tags s)
         \<and> (\<forall>ch s. ch \<noteq> CHR ''<'' \<longrightarrow> replace_tags (ch # s) = ch # replace_tags s)"
proof (intro conjI allI impI)
  note run = run_after_extraction [OF assms]
  fix tr2
  {
    fix e assume "fetch c parses net (concat cs) 0 tr1 = (Inl e, tr2)"
    with run show "run c parses net strategies challengeUrl tr
              = (Inr \<lparr>url = concat cs, flag = None, characters = cs,
                       characterCount = length cs\<rparr>, tr2)"
      by (simp add: fetchFlag_def)
  }
  {
    fix R assume "fetch c parses net (concat cs) 0 tr1 = (Inr R, tr2)"
    with run show "run c parses net strategies challengeUrl tr
              = (Inr \<lparr>url = concat cs, flag = Some (trim (replace_tags R)), characters = cs,
                       characterCount = length cs\<rparr>, tr2)"
      by (simp add: fetchFlag_def)
  }
next
  fix t s assume "CHR ''>'' \<notin> set t"
  then show "replace_tags (CHR ''<'' # t @ CHR ''>'' # s) = replace_tags s"
    by (rule replace_tags_tag)
next
  fix ch s assume "ch \<noteq> CHR ''<''"
  then show "replace_tags (ch # s) = ch # replace_tags s"
    by (rule replace_tags_plain)
qed

lemma fetch_challenge_page:
  "fetch new_HttpClient https_only net_ctf ''https://c'' 0 []
     = (Inr ''<html>page</html>'', [Request ''https://c''])"
  by (simp add: fetch.simps run_defs net_ctf_def)

lemma fetch_page_once:
  "fetch new_HttpClient https_only net_page_once ''https://c'' 0 []
     = (Inr ''<html>page</html>'', [Request ''https://c''])"
  by (simp add: fetch.simps run_defs net_page_once_def)

lemma parse_stub_url:
  "fst (parse [stub_empty, stub_url] ''<html>page</html>'')
     = Inr [''h'', ''t'', ''t'', ''p'', ''s'', '':'', ''/'', ''/'', ''f'']"
  by (simp add: parse_def validateHtml_def trim_def is_white_def validateCharacters_def
      stub_empty_def stub_url_def)

theorem run_flag_witness:
  "run new_HttpClient https_only net_ctf [stub_empty, stub_url] ''https://c'' []
     = (Inr \<lparr>url = ''https://f'', flag = Some ''sunbeam'',
              characters = [''h'', ''t'', ''t'', ''p'', ''s'', '':'', ''/'', ''/'', ''f''],
              characterCount = 9\<rparr>,
        [Request ''https://c'', Request ''https://f''])
   \<and> run new_HttpClient https_only net_page_once [stub_empty, stub_url] ''https://c'' []
     = (Inr \<lparr>url = ''https://f'', flag = None,
              characters = [''h'', ''t'', ''t'', ''p'', ''s'', '':'', ''/'', ''/'', ''f''],
              characterCount = 9\<rparr>,
        [Request ''https://c'', Request ''https://f'', Delay 1000, Request ''https://f'',
         Delay 1000, Request ''https://f''])"
proof -
  have flag: "fetch new_HttpClient https_only net_ctf ''https://f'' 0 [Request ''https://c'']
                = (Inr ''<p> sunbeam </p> '', [Request ''https://c'', Request ''https://f''])"
    by (simp add: fetch.simps run_defs net_ctf_def)
  have gone: "fetch new_HttpClient https_only net_page_once ''https://f'' 0 [Request ''https://c'']
                = (Inl (FetchFailed 3 (HttpStatus 404 ''Not Found'')),
                   [Request ''https://c'', Request ''https://f'', Delay 1000,
                    Request ''https://f'', Delay 1000, Request ''https://f''])"
    by (simp add: fetch.simps run_defs net_page_once_def)
  have strip: "trim (replace_tags ''<p> sunbeam </p> '') = ''sunbeam''"
    by (simp add: tag_pattern_def char_eq_def trim_def is_white_def)
  from run_flag [OF fetch_challenge_page parse_stub_url] run_flag [OF fetch_page_once parse_stub_url]
    flag gone strip
  show ?thesis by simp
qed

text \<open>
  C10. The URL-building step never fails: whether or not the joined string parses as
  a URL, \<open>_buildUrl\<close> returns the characters joined with the empty separator. So in
  every run in which the first fetch and the extraction succeed, the flag is fetched
  from exactly the joined string, and the run returns it as the URL.
\<close>

theorem buildUrl_never_fails:
  "buildUrl parses cs = concat cs
   \<and> (fetch c parses net challengeUrl 0 tr = (Inr html, tr1) \<and> fst (parse strategies html) = Inr cs
        \<longrightarrow> run c parses net strategies challengeUrl tr
              = (Inr \<lparr>url = concat cs, flag = fst (fetchFlag c parses net (concat cs) tr1),
                       characters = cs, characterCount = length cs\<rparr>,
                 snd (fetchFlag c parses net (concat cs) tr1)))"
  using run_after_extraction by (simp add: buildUrl_concat)

theorem buildUrl_never_fails_witness:
  "\<not> https_only ''ab''
   \<and> buildUrl https_only [''a'', ''b''] = ''ab''
   \<and> fetchFlag new_HttpClient https_only net_ctf ''ab'' [Request ''https://c'']
       = (None, [Request ''https://c'', Delay 1000, Delay 1000])
   \<and> run new_HttpClient https_only net_ctf [stub_empty, stub_ab] ''https://c'' []
       = (Inr \<lparr>url = ''ab'', flag = None, characters = [''a'', ''b''], characterCount = 2\<rparr>,
          [Request ''https://c'', Delay 1000, Delay 1000])"
proof -
  have bad: "\<not> https_only ''ab''" by (simp add: https_only_def)
  have chars: "fst (parse [stub_empty, stub_ab] ''<html>page</html>'') = Inr [''a'', ''b'']"
    by (simp add: parse_def validateHtml_def trim_def is_white_def validateCharacters_def
        stub_empty_def stub_ab_def)
  have flag: "fetchFlag new_HttpClient https_only net_ctf ''ab'' [Request ''https://c'']
                = (None, [Request ''https://c'', Delay 1000, Delay 1000])"
    by (simp add: fetchFlag_def fetch.simps run_defs)
  from buildUrl_never_fails [where parses = https_only and cs = "[''a'', ''b'']"
      and c = new_HttpClient and net = net_ctf and challengeUrl = "''https://c''" and tr = "[]"
      and html = "''<html>page</html>''" and ?tr1.0 = "[Request ''https://c'']"
      and strategies = "[stub_empty, stub_ab]"]
    fetch_challenge_page chars flag bad
  show ?thesis by simp
qed

section \<open>Properties of the tree techniques\<close>







lemma visited_nodes:
  assumes "n \<in> set (visited mode doc)"
  shows "matches mode (b_selector buildSelector) n"
  using assms
  by (auto simp: visited_def section_elements_def article_elements_def div_elements_def
      querySelectorAll_def)

subsection \<open>The matching elements and the outermost containers\<close>







subsection \<open>The nested loops and the outermost containers\<close>








subsection \<open>Documents of structures\<close>


lemma spec_structure [simp]:
  "spec_section (structure sid acl dtg bs) \<longleftrightarrow> sublist ''92'' sid"
  "\<not> spec_article (structure sid acl dtg bs)"
  "\<not> spec_div (structure sid acl dtg bs)"
  "\<not> spec_b (structure sid acl dtg bs)"
  "\<not> spec_section (Element ns ''article'' as cs)"
  "spec_article (Element ns ''article'' [(''data-class'', acl)] cs) \<longleftrightarrow> sublist ''45'' acl"
  "\<not> spec_div (Element ns ''article'' as cs)"
  "\<not> spec_b (Element ns ''article'' as cs)"
  "\<not> spec_section (Element ns ''div'' as cs)"
  "\<not> spec_article (Element ns ''div'' as cs)"
  "spec_div (Element ns ''div'' [(''data-tag'', dtg)] cs) \<longleftrightarrow> sublist ''78'' dtg"
  "\<not> spec_b (Element ns ''div'' as cs)"
  "\<not> spec_section (ref_b v)"
  "\<not> spec_article (ref_b v)"
  "\<not> spec_div (ref_b v)"
  "spec_b (ref_b v)"
  by (simp_all add: spec_section_def spec_article_def spec_div_def spec_b_def structure_def
      ref_b_def)






section \<open>The three techniques\<close>

lemma parser_of_text [simp]: "parser_of text doc text = Inr doc"
  by (simp add: parser_of_def)









text \<open>
  C4: the code on documents on which it departs from the claim. The innermost element
  has a class attribute other than "ref", \<open>ref bold\<close> or \<open>REF\<close>, so no structure
  matches and the claim has it add nothing. The selector \<open>b.ref[value]\<close> of the JSDOM
  strategy matches the class \<open>ref bold\<close>, and in the quirks-mode document of such a
  text also the class \<open>REF\<close>; the pattern of the Regex strategy, compiled with the flag
  \<open>i\<close>, matches \<open>class="REF"\<close>. Each returns the value of the element.
\<close>

theorem class_other_than_ref_matched:
  "matching_values (html_page class_ref_bold) = []
   \<and> JSDOMStrategy_extract (parser_of (source class_ref_bold) (BackCompat, html_page class_ref_bold))
       (source class_ref_bold) = Inr [''x'']
   \<and> matching_values (html_page class_upper_case) = []
   \<and> JSDOMStrategy_extract
       (parser_of (source class_upper_case) (BackCompat, html_page class_upper_case))
       (source class_upper_case) = Inr [''x'']
   \<and> RegexStrategy_extract (source class_upper_case) = Inr [''x'']"
  by code_simp

text \<open>
  C5: the code on documents on which it departs from the claim. The innermost element
  has the class "ref" and no value attribute, so the claim has it add nothing. Where
  it has the attribute \<open>data-value="x"\<close>, the JSDOM strategy returns nothing and the
  Regex strategy returns "x", the end of that attribute. Where the elements are in no
  namespace, so that the XPath strategy selects the innermost element, \<open>getAttribute\<close>
  of \<open>xmldom\<close> gives the empty string for the absent attribute, the test against
  \<open>null\<close> and \<open>undefined\<close> lets it pass, and the strategy returns the empty string.
\<close>

theorem absent_value_attribute_pushed:
  "JSDOMStrategy_extract (parser_of (source data_value_only) (BackCompat, html_page data_value_only))
     (source data_value_only) = Inr []
   \<and> RegexStrategy_extract (source data_value_only) = Inr [''x'']
   \<and> select buildXPathExpression no_namespace = [Element [] ''b'' [(''class'', ''ref'')] []]
   \<and> getAttribute (Element [] ''b'' [(''class'', ''ref'')] []) ''value'' = None
   \<and> XPathStrategy_extract (parser_of (source no_namespace) no_namespace) (source no_namespace)
       = Inr [[]]"
  by code_simp

end
